theory Spec2Isabelle
  imports Main
begin

section \<open>Values, errors and the Python operations the miner relies on\<close>

text \<open>
  The miner (\<^verbatim>\<open>minerador.py\<close>) handles the analyzer's output after
  \<^verbatim>\<open>json.loads\<close>, so a value is a JSON value. A dict is the list of its
  items (keys distinct, as \<^verbatim>\<open>json.loads\<close> leaves them). Numbers are
  integers: floats are not modelled.
\<close>

type_synonym path = string

datatype json =
    JNull
  | JBool bool
  | JNum int
  | JStr string
  | JArr "json list"
  | JObj "(string \<times> json) list"

text \<open>The exceptions that can travel through \<^verbatim>\<open>mine_repository\<close>.\<close>

datatype py_error =
    IndexError
  | KeyError string
  | TypeError
  | AttributeError
  | OSError
  | GitCommandError

text \<open>Truth value of an object, as \<^verbatim>\<open>if not x\<close> tests it.\<close>

fun truthy :: "json \<Rightarrow> bool" where
  "truthy JNull = False"
| "truthy (JBool b) = b"
| "truthy (JNum n) = (n \<noteq> 0)"
| "truthy (JStr s) = (s \<noteq> [])"
| "truthy (JArr xs) = (xs \<noteq> [])"
| "truthy (JObj kvs) = (kvs \<noteq> [])"

text \<open>\<^verbatim>\<open>v.get(k)\<close>: only a dict has the method; a missing key gives None.\<close>

fun dict_get :: "json \<Rightarrow> string \<Rightarrow> py_error + json" where
  "dict_get (JObj kvs) k = Inr (case map_of kvs k of None \<Rightarrow> JNull | Some x \<Rightarrow> x)"
| "dict_get v k = Inl AttributeError"

text \<open>\<^verbatim>\<open>v[k]\<close> with a string key: KeyError on a dict without the key,
  TypeError on every other value.\<close>

fun subscript :: "json \<Rightarrow> string \<Rightarrow> py_error + json" where
  "subscript (JObj kvs) k = (case map_of kvs k of None \<Rightarrow> Inl (KeyError k) | Some x \<Rightarrow> Inr x)"
| "subscript v k = Inl TypeError"

text \<open>The items a \<^verbatim>\<open>for\<close> loop visits: the elements of a list, the keys of
  a dict, the characters of a string; other values are not iterable.\<close>

fun iterate :: "json \<Rightarrow> py_error + json list" where
  "iterate (JArr xs) = Inr xs"
| "iterate (JObj kvs) = Inr (map (\<lambda>kv. JStr (fst kv)) kvs)"
| "iterate (JStr s) = Inr (map (\<lambda>c. JStr [c]) s)"
| "iterate v = Inl TypeError"

subsection \<open>Decimal numerals and string formatting\<close>

definition digit_char :: "nat \<Rightarrow> char" where
  "digit_char d = ''0123456789'' ! d"

function str_nat :: "nat \<Rightarrow> string" where
  "str_nat n = (if n < 10 then [digit_char n] else str_nat (n div 10) @ [digit_char (n mod 10)])"
  by pat_completeness auto
termination
  by (relation "measure id") auto

declare str_nat.simps [simp del]

definition str_int :: "int \<Rightarrow> string" where
  "str_int z = (if z < 0 then CHR ''-'' # str_nat (nat (- z)) else str_nat (nat z))"

text \<open>Reading a decimal numeral back; used to show that \<open>str_nat\<close> is injective.\<close>

definition nat_of_digits :: "string \<Rightarrow> nat" where
  "nat_of_digits s = foldl (\<lambda>a c. 10 * a + (of_char c - 48)) 0 s"

text \<open>\<^verbatim>\<open>str(x)\<close> as an f-string applies it. The text of a list or a dict
  (Python's \<^verbatim>\<open>repr\<close> of its elements) is left to the parameter \<open>r\<close>.\<close>

fun py_str :: "(json \<Rightarrow> string) \<Rightarrow> json \<Rightarrow> string" where
  "py_str r (JStr s) = s"
| "py_str r JNull = ''None''"
| "py_str r (JBool b) = (if b then ''True'' else ''False'')"
| "py_str r (JNum n) = str_int n"
| "py_str r v = r v"

subsection \<open>Strings and paths\<close>

text \<open>\<^verbatim>\<open>str.strip()\<close> on the ASCII white space characters.\<close>

definition is_space :: "char \<Rightarrow> bool" where
  "is_space c = (c \<in> set [CHR '' '', CHR 0x09, CHR 0x0A, CHR 0x0B, CHR 0x0C, CHR 0x0D,
                          CHR 0x1C, CHR 0x1D, CHR 0x1E, CHR 0x1F])"

definition strip :: "string \<Rightarrow> string" where
  "strip s = rev (dropWhile is_space (rev (dropWhile is_space s)))"

text \<open>\<^verbatim>\<open>s.split("/")\<close>: never empty.\<close>

fun split_slash :: "string \<Rightarrow> string list" where
  "split_slash [] = [[]]"
| "split_slash (c # cs) =
     (if c = CHR ''/'' then [] # split_slash cs
      else (case split_slash cs of
              [] \<Rightarrow> [[c]]
            | w # ws \<Rightarrow> (c # w) # ws))"

text \<open>\<^verbatim>\<open>s.replace(".git", "")\<close>: every occurrence, left to right.\<close>

function remove_dot_git :: "string \<Rightarrow> string" where
  "remove_dot_git s =
     (if s = [] then []
      else if take 4 s = ''.git'' then remove_dot_git (drop 4 s)
      else hd s # remove_dot_git (tl s))"
  by pat_completeness auto
termination
  by (relation "measure length") auto

declare remove_dot_git.simps [simp del]

text \<open>\<^verbatim>\<open>os.path.join(a, b)\<close> and \<^verbatim>\<open>os.path.basename(p)\<close> of
  \<^verbatim>\<open>posixpath\<close>.\<close>

definition path_join :: "path \<Rightarrow> path \<Rightarrow> path" where
  "path_join a b =
     (if take 1 b = ''/'' then b
      else if a = [] \<or> last a = CHR ''/'' then a @ b
      else a @ ''/'' @ b)"

definition basename :: "path \<Rightarrow> path" where
  "basename p = rev (takeWhile (\<lambda>c. c \<noteq> CHR ''/'') (rev p))"

section \<open>The world outside the miner\<close>

text \<open>The outcome of \<^verbatim>\<open>subprocess.run(..., timeout=60)\<close>: it returns the
  captured streams, raises TimeoutExpired, or fails otherwise.\<close>

datatype proc_outcome =
    Completed string string
  | TimeoutExpired
  | SpawnFailed

text \<open>A path of the clone while a commit is checked out: absent, present but not
  readable as a file, or a file with its decoded text.\<close>

datatype ws_file =
    Missing
  | Unreadable
  | Readable string

text \<open>A commit as the loop reads it: \<^verbatim>\<open>hexsha\<close>, and
  \<^verbatim>\<open>committed_date\<close> already formatted as %Y-%m-%d.\<close>

record commit =
  hexsha :: string
  committed_date :: string

text \<open>The cloned repository: its active branch (None when reading it raises) and
  \<^verbatim>\<open>iter_commits(branch)\<close> (None when it raises).\<close>

record repo =
  active_branch :: "string option"
  iter_commits :: "string \<Rightarrow> commit list option"

text \<open>
  Everything the miner asks of its surroundings. \<open>clone_from url dir\<close> is None when
  the clone raises. \<open>checkout_ok\<close>, \<open>subprocess_run\<close> and \<open>worktree\<close> are
  indexed by the commit being processed. \<open>makedirs_fails\<close> and \<open>open_w_fails\<close>
  say where the operating system refuses a directory creation or an
  \<^verbatim>\<open>open(p, "w")\<close>; a refused write leaves the file system unchanged.
\<close>

record env =
  mkdtemp :: path
  clone_from :: "string \<Rightarrow> path \<Rightarrow> repo option"
  checkout_ok :: "string \<Rightarrow> bool"
  subprocess_run :: "string \<Rightarrow> string \<Rightarrow> path \<Rightarrow> proc_outcome"
  json_loads :: "string \<Rightarrow> json option"
  worktree :: "string \<Rightarrow> path \<Rightarrow> ws_file"
  makedirs_fails :: "path \<Rightarrow> bool"
  open_w_fails :: "path \<Rightarrow> bool"
  container_repr :: "json \<Rightarrow> string"

section \<open>The miner's state\<close>

text \<open>The dict written as a violation record (lines 154-167): field \<open>rec_k\<close>
  is the value under key \<open>k\<close>.\<close>

record violation_data =
  rec_project_name :: string
  rec_owner :: string
  rec_branch :: string
  rec_commit_hash :: string
  rec_full_commit_hash :: string
  rec_commit_date :: string
  rec_file_path_in_repo :: string
  rec_local_file_name :: string
  rec_line :: json
  rec_linter_code :: json
  rec_message :: json
  rec_repo_url :: string

text \<open>An entry of the dataset tree: a directory, a copied source file, or a record.\<close>

datatype node =
    Directory
  | Snapshot string
  | RecordFile violation_data

text \<open>One constructor per \<^verbatim>\<open>log(...)\<close> call of the source.\<close>

datatype log_msg =
    LogCloning string
  | LogCloneError string
  | LogCommitsFound nat string
  | LogCheckoutError string
  | LogAnalysing string string
  | LogRuffDecodeError string
  | LogFileNotFound string
  | LogReadError string
  | LogSaveJsonError
  | LogDone nat
  | LogProcessed string

text \<open>
  \<open>tempdirs\<close>: the temporary directories that exist (the clone lives outside the
  dataset tree). \<open>fs\<close>: the dataset tree, by path; a path is the string the miner
  builds, two strings are two entries. \<open>logs\<close>: what was printed, oldest first.
  \<open>violation_counter\<close>: the local counter of \<^verbatim>\<open>mine_repository\<close>.
\<close>

record state =
  tempdirs :: "path set"
  fs :: "path \<rightharpoonup> node"
  logs :: "log_msg list"
  violation_counter :: nat

definition log :: "log_msg \<Rightarrow> state \<Rightarrow> state" where
  "log m s = s\<lparr>logs := logs s @ [m]\<rparr>"

text \<open>\<^verbatim>\<open>os.makedirs(p, exist_ok=True)\<close>: raises when the system refuses or
  when \<open>p\<close> is a file; an existing directory is left as it is. Only \<open>p\<close> itself
  is entered: where the miner calls it the parents exist (line 20 makes the dataset
  directory, line 111 the project directory before any commit directory).\<close>

definition makedirs :: "env \<Rightarrow> path \<Rightarrow> state \<Rightarrow> py_error option \<times> state" where
  "makedirs e p s =
     (if makedirs_fails e p then (Some OSError, s)
      else (case fs s p of
              None \<Rightarrow> (None, s\<lparr>fs := (fs s)(p \<mapsto> Directory)\<rparr>)
            | Some Directory \<Rightarrow> (None, s)
            | Some f \<Rightarrow> (Some OSError, s)))"

text \<open>\<^verbatim>\<open>shutil.rmtree(temp_dir, ignore_errors=True)\<close>.\<close>

definition rmtree :: "path \<Rightarrow> state \<Rightarrow> state" where
  "rmtree d s = s\<lparr>tempdirs := tempdirs s - {d}\<rparr>"

text \<open>\<^verbatim>\<open>open(p, "w")\<close> followed by the write: refused by the system, or on a
  directory.\<close>

definition write_refused :: "env \<Rightarrow> state \<Rightarrow> path \<Rightarrow> bool" where
  "write_refused e s p = (open_w_fails e p \<or> fs s p = Some Directory)"

section \<open>The functions of the source\<close>

text \<open>The text \<^verbatim>\<open>run_command\<close> returns as stderr after a timeout (its first
  three bytes are the UTF-8 encoding of the stopwatch sign).\<close>

definition timeout_msg :: string where
  "timeout_msg = [CHR 0xE2, CHR 0x8F, CHR 0xB1] @ '' Timeout ao executar comando''"

text \<open>\<^verbatim>\<open>run_command(cmd, cwd)\<close>, lines 38-44. \<open>run\<close> is
  \<^verbatim>\<open>subprocess.run\<close>; only TimeoutExpired is caught.\<close>

definition run_command ::
  "(string \<Rightarrow> path \<Rightarrow> proc_outcome) \<Rightarrow> string \<Rightarrow> path \<Rightarrow> py_error + (string \<times> string)" where
  "run_command run cmd cwd =
     (case run cmd cwd of
        Completed out err \<Rightarrow> Inr (strip out, strip err)
      | TimeoutExpired \<Rightarrow> Inr ([], timeout_msg)
      | SpawnFailed \<Rightarrow> Inl OSError)"

text \<open>\<^verbatim>\<open>collect_ruff_violations(repo_path)\<close>, lines 75-85. It returns what
  \<^verbatim>\<open>json.loads\<close> gives, or the empty list.\<close>

definition collect_ruff_violations ::
  "env \<Rightarrow> (string \<Rightarrow> path \<Rightarrow> proc_outcome) \<Rightarrow> path \<Rightarrow> state \<Rightarrow> (py_error + json) \<times> state" where
  "collect_ruff_violations e run repo_path s =
     (case run_command run ''ruff check --output-format json .'' repo_path of
        Inl err \<Rightarrow> (Inl err, s)
      | Inr (stdout, stderr) \<Rightarrow>
          if strip stdout = [] then (Inr (JArr []), s)
          else (case json_loads e stdout of
                  Some parsed \<Rightarrow> (Inr parsed, s)
                | None \<Rightarrow> (Inr (JArr []), log (LogRuffDecodeError stderr) s)))"

text \<open>What \<^verbatim>\<open>mine_repository\<close> has fixed before its loop over the commits.\<close>

record ctx =
  cx_repo_url :: string
  cx_repo_name :: string
  cx_owner :: string
  cx_branch :: string
  cx_temp_dir :: path
  cx_repo_base_dir :: path

text \<open>Lines 149-152: the file is copied unless the destination exists. The write is
  not inside a \<^verbatim>\<open>try\<close>.\<close>

definition write_snapshot :: "env \<Rightarrow> path \<Rightarrow> string \<Rightarrow> state \<Rightarrow> py_error option \<times> state" where
  "write_snapshot e python_file_destination file_content s =
     (if fs s python_file_destination \<noteq> None then (None, s)
      else if open_w_fails e python_file_destination then (Some OSError, s)
      else (None, s\<lparr>fs := (fs s)(python_file_destination \<mapsto> Snapshot file_content)\<rparr>))"

text \<open>Lines 154-167: the dict literal; its values are evaluated in order, so the
  first failing lookup is the one raised.\<close>

definition build_violation_data ::
  "ctx \<Rightarrow> commit \<Rightarrow> string \<Rightarrow> string \<Rightarrow> json \<Rightarrow> py_error + violation_data" where
  "build_violation_data cx c relative_file_path file_name v =
     (case subscript v ''location'' of
        Inl err \<Rightarrow> Inl err
      | Inr location \<Rightarrow>
     (case subscript location ''row'' of
        Inl err \<Rightarrow> Inl err
      | Inr row \<Rightarrow>
     (case subscript v ''code'' of
        Inl err \<Rightarrow> Inl err
      | Inr code \<Rightarrow>
     (case subscript v ''message'' of
        Inl err \<Rightarrow> Inl err
      | Inr msg \<Rightarrow>
          Inr \<lparr>rec_project_name = cx_repo_name cx,
               rec_owner = cx_owner cx,
               rec_branch = cx_branch cx,
               rec_commit_hash = take 7 (hexsha c),
               rec_full_commit_hash = hexsha c,
               rec_commit_date = committed_date c,
               rec_file_path_in_repo = relative_file_path,
               rec_local_file_name = file_name,
               rec_line = row,
               rec_linter_code = code,
               rec_message = msg,
               rec_repo_url = cx_repo_url cx\<rparr>))))"

text \<open>Line 169: \<^verbatim>\<open>f"violation_{v['code']}_{i+1}.json"\<close>, with the text of the
  code and the value of \<open>i+1\<close>.\<close>

definition violation_filename :: "string \<Rightarrow> nat \<Rightarrow> string" where
  "violation_filename code_text k = ''violation_'' @ code_text @ ''_'' @ str_nat k @ ''.json''"

text \<open>Lines 169-177: the record is written inside a \<^verbatim>\<open>try\<close>; a failure is
  logged and the counter is left alone.\<close>

definition write_record :: "env \<Rightarrow> path \<Rightarrow> violation_data \<Rightarrow> state \<Rightarrow> state" where
  "write_record e json_destination violation_data s =
     (if write_refused e s json_destination then log LogSaveJsonError s
      else s\<lparr>fs := (fs s)(json_destination \<mapsto> RecordFile violation_data),
             violation_counter := violation_counter s + 1\<rparr>)"

text \<open>The body of the loop over the violations, lines 132-177, for the entry \<open>v\<close>
  at position \<open>i\<close> of \<^verbatim>\<open>enumerate(violations)\<close>. The result is the
  exception that leaves the body, if any, and the state reached.\<close>

definition process_violation ::
  "env \<Rightarrow> ctx \<Rightarrow> commit \<Rightarrow> path \<Rightarrow> nat \<Rightarrow> json \<Rightarrow> state \<Rightarrow> py_error option \<times> state" where
  "process_violation e cx c commit_dir i v s =
     (case dict_get v ''filename'' of
        Inl err \<Rightarrow> (Some err, s)
      | Inr relative_file_path \<Rightarrow>
          if \<not> truthy relative_file_path then (None, s)
          else (case relative_file_path of
                  JStr rel \<Rightarrow>
                    (case worktree e (hexsha c) (path_join (cx_temp_dir cx) rel) of
                       Missing \<Rightarrow> (None, log (LogFileNotFound rel) s)
                     | Unreadable \<Rightarrow> (None, log (LogReadError (basename rel)) s)
                     | Readable file_content \<Rightarrow>
                         (case write_snapshot e (path_join commit_dir (basename rel)) file_content s of
                            (Some err, s1) \<Rightarrow> (Some err, s1)
                          | (None, s1) \<Rightarrow>
                              (case build_violation_data cx c rel (basename rel) v of
                                 Inl err \<Rightarrow> (Some err, s1)
                               | Inr violation_data \<Rightarrow>
                                   (None,
                                    write_record e
                                      (path_join commit_dir
                                         (violation_filename
                                            (py_str (container_repr e) (rec_linter_code violation_data))
                                            (Suc i)))
                                      violation_data s1))))
                | other \<Rightarrow> (Some TypeError, s)))"

text \<open>Line 131: the loop over \<^verbatim>\<open>enumerate(violations)\<close> from position \<open>i\<close>;
  an exception ends it.\<close>

fun persist_loop ::
  "env \<Rightarrow> ctx \<Rightarrow> commit \<Rightarrow> path \<Rightarrow> nat \<Rightarrow> json list \<Rightarrow> state \<Rightarrow> py_error option \<times> state" where
  "persist_loop e cx c commit_dir i [] s = (None, s)"
| "persist_loop e cx c commit_dir i (v # vs) s =
     (case process_violation e cx c commit_dir i v s of
        (Some err, s1) \<Rightarrow> (Some err, s1)
      | (None, s1) \<Rightarrow> persist_loop e cx c commit_dir (Suc i) vs s1)"

text \<open>Lines 125-177: what is done with the collector's result for one commit.\<close>

definition persist ::
  "env \<Rightarrow> ctx \<Rightarrow> commit \<Rightarrow> json \<Rightarrow> state \<Rightarrow> py_error option \<times> state" where
  "persist e cx c violations s =
     (if \<not> truthy violations then (None, s)
      else (case makedirs e (path_join (cx_repo_base_dir cx) (take 7 (hexsha c))) s of
              (Some err, s1) \<Rightarrow> (Some err, s1)
            | (None, s1) \<Rightarrow>
                (case iterate violations of
                   Inl err \<Rightarrow> (Some err, s1)
                 | Inr vs \<Rightarrow>
                     persist_loop e cx c (path_join (cx_repo_base_dir cx) (take 7 (hexsha c))) 0 vs s1)))"

text \<open>The body of the loop over the commits, lines 114-177.\<close>

definition process_commit :: "env \<Rightarrow> ctx \<Rightarrow> commit \<Rightarrow> state \<Rightarrow> py_error option \<times> state" where
  "process_commit e cx c s =
     (if \<not> checkout_ok e (hexsha c) then (None, log (LogCheckoutError (take 7 (hexsha c))) s)
      else (case collect_ruff_violations e (subprocess_run e (hexsha c)) (cx_temp_dir cx)
                   (log (LogAnalysing (take 7 (hexsha c)) (committed_date c)) s) of
              (Inl err, s1) \<Rightarrow> (Some err, s1)
            | (Inr violations, s1) \<Rightarrow> persist e cx c violations s1))"

text \<open>Line 113: the loop over the commits; an exception ends it.\<close>

fun commits_loop :: "env \<Rightarrow> ctx \<Rightarrow> commit list \<Rightarrow> state \<Rightarrow> py_error option \<times> state" where
  "commits_loop e cx [] s = (None, s)"
| "commits_loop e cx (c # cs) s =
     (case process_commit e cx c s of
        (Some err, s1) \<Rightarrow> (Some err, s1)
      | (None, s1) \<Rightarrow> commits_loop e cx cs s1)"

definition DATASET :: path where
  "DATASET = ''dataset''"

text \<open>Lines 102-185: \<^verbatim>\<open>mine_repository\<close> once the clone has succeeded.\<close>

definition mine_cloned ::
  "env \<Rightarrow> string \<Rightarrow> string \<Rightarrow> string \<Rightarrow> path \<Rightarrow> repo \<Rightarrow> state \<Rightarrow> py_error option \<times> state" where
  "mine_cloned e repo_url repo_name owner temp_dir r s =
     (let branch = (case active_branch r of Some b \<Rightarrow> b | None \<Rightarrow> ''main'') in
      case iter_commits r branch of
        None \<Rightarrow> (Some GitCommandError, s)
      | Some commits \<Rightarrow>
          (case makedirs e (path_join DATASET repo_name)
                  (log (LogCommitsFound (length commits) branch) s) of
             (Some err, s1) \<Rightarrow> (Some err, s1)
           | (None, s1) \<Rightarrow>
               (case commits_loop e
                       \<lparr>cx_repo_url = repo_url, cx_repo_name = repo_name, cx_owner = owner,
                        cx_branch = branch, cx_temp_dir = temp_dir,
                        cx_repo_base_dir = path_join DATASET repo_name\<rparr>
                       commits s1 of
                  (Some err, s2) \<Rightarrow> (Some err, s2)
                | (None, s2) \<Rightarrow>
                    (None,
                     log (LogProcessed repo_url)
                       (rmtree temp_dir (log (LogDone (violation_counter s2)) s2))))))"

text \<open>\<^verbatim>\<open>mine_repository(repo_url)\<close>, lines 87-185. The result is the exception
  that escapes the call, if any, and the state it leaves.\<close>

definition mine_repository :: "env \<Rightarrow> string \<Rightarrow> state \<Rightarrow> py_error option \<times> state" where
  "mine_repository e repo_url s =
     (let parts = split_slash repo_url;
          repo_name = remove_dot_git (last parts) in
      if length parts < 2 then (Some IndexError, s)
      else
        (let owner = parts ! (length parts - 2);
             temp_dir = mkdtemp e;
             s1 = log (LogCloning repo_url)
                    (s\<lparr>tempdirs := insert temp_dir (tempdirs s), violation_counter := 0\<rparr>) in
         case clone_from e repo_url temp_dir of
           None \<Rightarrow> (None, rmtree temp_dir (log (LogCloneError repo_url) s1))
         | Some r \<Rightarrow> mine_cloned e repo_url repo_name owner temp_dir r s1))"

section \<open>The invariant of the dataset\<close>


text \<open>The documented layout of the dataset puts the directories above the files
  (\<^verbatim>\<open>dataset/<project_name>/<commit_hash>\<close> is the deepest directory), names
  the records \<^verbatim>\<open>violation_<code>_<i>.json\<close> and keeps the snapshots under the
  base names of the source files. \<open>json_name\<close>: the path ends in
  \<^verbatim>\<open>.json\<close>. \<open>depth\<close>: the number of separators of a path.\<close>

definition json_name :: "path \<Rightarrow> bool" where
  "json_name p = (take 5 (rev p) = rev ''.json'')"







section \<open>Violations that can be stored\<close>

text \<open>The path of the record of a violation with code \<open>code\<close> at position \<open>k\<close>
  (counted from 1), as lines 169-170 compute \<^verbatim>\<open>json_destination\<close>.\<close>

definition json_destination :: "env \<Rightarrow> path \<Rightarrow> json \<Rightarrow> nat \<Rightarrow> path" where
  "json_destination e commit_dir code k =
     path_join commit_dir (violation_filename (py_str (container_repr e) code) k)"

text \<open>The record lines 154-167 build for an entry, when they can.\<close>

definition entry_record :: "ctx \<Rightarrow> commit \<Rightarrow> json \<Rightarrow> violation_data option" where
  "entry_record cx c v =
     (case dict_get v ''filename'' of
        Inr (JStr rel) \<Rightarrow>
          (case build_violation_data cx c rel (basename rel) v of
             Inr d \<Rightarrow> Some d
           | Inl err \<Rightarrow> None)
      | other \<Rightarrow> None)"

text \<open>An entry with the linter code \<open>code\<close> whose file resolves: it names a file
  that the clone holds and that can be read, it has the keys of a record, and the system
  does not refuse the copy of the file into the commit directory.\<close>

definition storable :: "env \<Rightarrow> ctx \<Rightarrow> commit \<Rightarrow> path \<Rightarrow> json \<Rightarrow> json \<Rightarrow> bool" where
  "storable e cx c commit_dir code v =
     (case dict_get v ''filename'' of
        Inr (JStr rel) \<Rightarrow>
          rel \<noteq> []
          \<and> (case worktree e (hexsha c) (path_join (cx_temp_dir cx) rel) of
                Readable file_content \<Rightarrow> True
              | other \<Rightarrow> False)
          \<and> \<not> open_w_fails e (path_join commit_dir (basename rel))
          \<and> (case build_violation_data cx c rel (basename rel) v of
                Inr d \<Rightarrow> rec_linter_code d = code
              | Inl err \<Rightarrow> False)
      | other \<Rightarrow> False)"

section \<open>A small world to run the miner in\<close>

text \<open>
  The repository \<^verbatim>\<open>https://github.com/acme/r.git\<close> with one commit, whose
  tree holds \<^verbatim>\<open>x.py\<close> and \<^verbatim>\<open>y.py\<close>. The analyzer reports one
  violation of E501 in \<^verbatim>\<open>x.py\<close>; nothing fails. The examples below change one part of this world at a time.
\<close>

definition state0 :: state where
  "state0 = \<lparr>tempdirs = {}, fs = Map.empty, logs = [], violation_counter = 0\<rparr>"

definition ex_url :: string where
  "ex_url = ''https://github.com/acme/r.git''"

definition ex_commit :: commit where
  "ex_commit = \<lparr>hexsha = ''abcdef1234567890abcdef1234567890abcdef12'',
                 committed_date = ''2024-01-02''\<rparr>"

definition ex_repo :: repo where
  "ex_repo = \<lparr>active_branch = Some ''main'', iter_commits = (\<lambda>b. Some [ex_commit])\<rparr>"

definition ex_entry :: json where
  "ex_entry = JObj [(''filename'', JStr ''x.py''),
                    (''location'', JObj [(''row'', JNum 10)]),
                    (''code'', JStr ''E501''),
                    (''message'', JStr ''line too long'')]"

definition ex_env :: env where
  "ex_env = \<lparr>mkdtemp = ''/tmp/repo_1'',
              clone_from = (\<lambda>url dir. Some ex_repo),
              checkout_ok = (\<lambda>h. True),
              subprocess_run = (\<lambda>h cmd cwd. Completed ''[1]'' []),
              json_loads = (\<lambda>out. Some (JArr [ex_entry])),
              worktree = (\<lambda>h p. if p = ''/tmp/repo_1/x.py'' then Readable ''import os''
                              else if p = ''/tmp/repo_1/y.py'' then Readable ''import sys''
                              else Missing),
              makedirs_fails = (\<lambda>p. False),
              open_w_fails = (\<lambda>p. False),
              container_repr = (\<lambda>v. [])\<rparr>"

definition ex_cx :: ctx where
  "ex_cx = \<lparr>cx_repo_url = ex_url, cx_repo_name = ''r'', cx_owner = ''acme'',
             cx_branch = ''main'', cx_temp_dir = ''/tmp/repo_1'',
             cx_repo_base_dir = ''dataset/r''\<rparr>"

text \<open>A second violation, in \<^verbatim>\<open>y.py\<close>; one in a file the tree does not
  hold; and the first one without its \<^verbatim>\<open>code\<close> key.\<close>

definition ex_entry_y :: json where
  "ex_entry_y = JObj [(''filename'', JStr ''y.py''),
                      (''location'', JObj [(''row'', JNum 3)]),
                      (''code'', JStr ''E501''),
                      (''message'', JStr ''line too long'')]"

definition ex_entry_gone :: json where
  "ex_entry_gone = JObj [(''filename'', JStr ''gone.py''),
                         (''location'', JObj [(''row'', JNum 1)]),
                         (''code'', JStr ''F401''),
                         (''message'', JStr ''unused import'')]"

definition ex_entry_no_code :: json where
  "ex_entry_no_code = JObj [(''filename'', JStr ''x.py''),
                            (''location'', JObj [(''row'', JNum 10)]),
                            (''message'', JStr ''line too long'')]"

text \<open>The record the miner writes for \<open>ex_entry\<close> at \<open>ex_commit\<close>.\<close>

definition ex_record :: violation_data where
  "ex_record = \<lparr>rec_project_name = ''r'', rec_owner = ''acme'', rec_branch = ''main'',
                 rec_commit_hash = ''abcdef1'',
                 rec_full_commit_hash = ''abcdef1234567890abcdef1234567890abcdef12'',
                 rec_commit_date = ''2024-01-02'', rec_file_path_in_repo = ''x.py'',
                 rec_local_file_name = ''x.py'', rec_line = JNum 10,
                 rec_linter_code = JStr ''E501'', rec_message = JStr ''line too long'',
                 rec_repo_url = ex_url\<rparr>"

text \<open>Two runs of a command: one that exceeds the timeout, and one that completes
  with nothing on stdout and the timeout text on stderr.\<close>

definition run_times_out :: "string \<Rightarrow> path \<Rightarrow> proc_outcome" where
  "run_times_out cmd cwd = TimeoutExpired"

definition run_prints_timeout_msg :: "string \<Rightarrow> path \<Rightarrow> proc_outcome" where
  "run_prints_timeout_msg cmd cwd = Completed [] timeout_msg"

text \<open>The analyzer prints \<^verbatim>\<open>[{}]\<close>: one entry, with no key at all.\<close>

definition run_prints_empty_entry :: "string \<Rightarrow> path \<Rightarrow> proc_outcome" where
  "run_prints_empty_entry cmd cwd = Completed ''[{}]'' []"

definition loads_empty_entry :: "string \<Rightarrow> json option" where
  "loads_empty_entry out = (if out = ''[{}]'' then Some (JArr [JObj []]) else None)"

text \<open>The dataset after the violation of \<open>ex_entry\<close> was stored: the project
  directory, the commit directory, the snapshot of \<^verbatim>\<open>x.py\<close> and the record.\<close>

definition state_with_x :: state where
  "state_with_x =
     \<lparr>tempdirs = {''/tmp/repo_1''},
      fs = [''dataset/r'' \<mapsto> Directory,
            ''dataset/r/abcdef1'' \<mapsto> Directory,
            ''dataset/r/abcdef1/x.py'' \<mapsto> Snapshot ''import os'',
            ''dataset/r/abcdef1/violation_E501_1.json'' \<mapsto> RecordFile ex_record],
      logs = [], violation_counter = 1\<rparr>"

text \<open>A second violation in \<^verbatim>\<open>x.py\<close>, and the record written for it.\<close>

definition ex_entry_x2 :: json where
  "ex_entry_x2 = JObj [(''filename'', JStr ''x.py''),
                       (''location'', JObj [(''row'', JNum 1)]),
                       (''code'', JStr ''F401''),
                       (''message'', JStr ''unused import'')]"

definition ex_record_y :: violation_data where
  "ex_record_y = ex_record\<lparr>rec_file_path_in_repo := ''y.py'', rec_local_file_name := ''y.py'',
                             rec_line := JNum 3\<rparr>"

definition ex_record_x2 :: violation_data where
  "ex_record_x2 = ex_record\<lparr>rec_line := JNum 1, rec_linter_code := JStr ''F401'',
                              rec_message := JStr ''unused import''\<rparr>"

text \<open>The system refuses to create the snapshot of \<^verbatim>\<open>x.py\<close> (a full disk,
  say), and the analyzer reports a violation in each of the two files.\<close>

definition env_disk_full :: env where
  "env_disk_full = ex_env\<lparr>json_loads := (\<lambda>out. Some (JArr [ex_entry, ex_entry_y])),
                           open_w_fails := (\<lambda>p. p = ''dataset/r/abcdef1/x.py'')\<rparr>"

text \<open>The analyzer reports the violation without its code.\<close>

definition env_no_code :: env where
  "env_no_code = ex_env\<lparr>json_loads := (\<lambda>out. Some (JArr [ex_entry_no_code]))\<rparr>"

text \<open>A tree whose files are named like records: \<^verbatim>\<open>violation_E501_1.json\<close>
  and \<^verbatim>\<open>violation_E501_2.json\<close>. The analyzer reports one violation of E501, in
  the first; \<open>ex_entry_json2\<close> is a violation of E501 in the second. Then the records
  the miner builds for them.\<close>

definition ex_entry_json :: json where
  "ex_entry_json = JObj [(''filename'', JStr ''violation_E501_1.json''),
                         (''location'', JObj [(''row'', JNum 1)]),
                         (''code'', JStr ''E501''),
                         (''message'', JStr ''line too long'')]"

definition ex_entry_json2 :: json where
  "ex_entry_json2 = JObj [(''filename'', JStr ''violation_E501_2.json''),
                          (''location'', JObj [(''row'', JNum 1)]),
                          (''code'', JStr ''E501''),
                          (''message'', JStr ''line too long'')]"

definition env_json_file :: env where
  "env_json_file =
     ex_env\<lparr>json_loads := (\<lambda>out. Some (JArr [ex_entry_json])),
             worktree := (\<lambda>h p. if p = ''/tmp/repo_1/violation_E501_1.json'' then Readable ''{}''
                              else if p = ''/tmp/repo_1/violation_E501_2.json''
                                then Readable ''FIRST WRITER''
                              else Missing)\<rparr>"


definition ex_record_json2 :: violation_data where
  "ex_record_json2 = ex_record\<lparr>rec_file_path_in_repo := ''violation_E501_2.json'',
                                 rec_local_file_name := ''violation_E501_2.json'',
                                 rec_line := JNum 1\<rparr>"

text \<open>A repository that can be cloned but whose commits cannot be listed (an empty
  repository, say): \<^verbatim>\<open>repo.iter_commits\<close> raises.\<close>

definition ex_empty_repo :: repo where
  "ex_empty_repo = \<lparr>active_branch = Some ''main'', iter_commits = (\<lambda>b. None)\<rparr>"

definition env_empty_repo :: env where
  "env_empty_repo = ex_env\<lparr>clone_from := (\<lambda>url dir. Some ex_empty_repo)\<rparr>"

text \<open>The context \<^verbatim>\<open>mine_repository\<close> hands to its loop over the commits.\<close>

definition loop_ctx :: "env \<Rightarrow> string \<Rightarrow> string \<Rightarrow> ctx" where
  "loop_ctx e repo_url branch =
     \<lparr>cx_repo_url = repo_url,
      cx_repo_name = remove_dot_git (last (split_slash repo_url)),
      cx_owner = split_slash repo_url ! (length (split_slash repo_url) - 2),
      cx_branch = branch,
      cx_temp_dir = mkdtemp e,
      cx_repo_base_dir = path_join DATASET (remove_dot_git (last (split_slash repo_url)))\<rparr>"

section \<open>Facts about numerals, file names and paths\<close>


lemma of_char_digit_char: "d < 10 \<Longrightarrow> of_char (digit_char d) = (48 + d :: nat)"
proof -
  assume "d < 10"
  then have "d \<in> {0, 1, 2, 3, 4, 5, 6, 7, 8, 9}" by auto
  then show ?thesis by (auto simp: digit_char_def)
qed

lemma digit_char_not_underscore: "d < 10 \<Longrightarrow> digit_char d \<noteq> CHR ''_''"
proof
  assume d: "d < 10" and eq: "digit_char d = CHR ''_''"
  have "(of_char (digit_char d) :: nat) = of_char (CHR ''_'')" using eq by simp
  then show False using d by (simp add: of_char_digit_char)
qed

lemma str_nat_no_underscore: "CHR ''_'' \<notin> set (str_nat n)"
proof (induction n rule: str_nat.induct)
  case (1 n)
  show ?case
  proof (cases "n < 10")
    case True
    then show ?thesis using digit_char_not_underscore [of n]
      by (simp add: str_nat.simps [of n])
  next
    case False
    have "n mod 10 < 10" by simp
    then have "digit_char (n mod 10) \<noteq> CHR ''_''" by (rule digit_char_not_underscore)
    with False "1.IH" show ?thesis
      by (simp add: str_nat.simps [of n])
  qed
qed

lemma nat_of_digits_snoc: "nat_of_digits (s @ [c]) = 10 * nat_of_digits s + (of_char c - 48)"
  by (simp add: nat_of_digits_def)

lemma nat_of_digits_str_nat: "nat_of_digits (str_nat n) = n"
proof (induction n rule: str_nat.induct)
  case (1 n)
  show ?case
  proof (cases "n < 10")
    case True
    then show ?thesis
      by (simp add: str_nat.simps [of n] nat_of_digits_def of_char_digit_char)
  next
    case False
    have "n mod 10 < 10" by simp
    then have "of_char (digit_char (n mod 10)) = (48 + n mod 10 :: nat)"
      by (rule of_char_digit_char)
    with False "1.IH" show ?thesis
      by (simp add: str_nat.simps [of n] nat_of_digits_snoc)
  qed
qed

lemma str_nat_inj: "str_nat a = str_nat b \<Longrightarrow> a = b"
  by (metis nat_of_digits_str_nat)

lemma takeWhile_before: "\<forall>x\<in>set xs. P x \<Longrightarrow> \<not> P y \<Longrightarrow> takeWhile P (xs @ y # ys) = xs"
  by (induction xs) auto

lemma violation_filename_index:
  assumes "violation_filename c1 k1 = violation_filename c2 k2"
  shows "k1 = k2"
proof -
  let ?P = "\<lambda>c. c \<noteq> CHR ''_''"
  from assms have "c1 @ ''_'' @ str_nat k1 = c2 @ ''_'' @ str_nat k2"
    by (simp add: violation_filename_def)
  then have "rev (c1 @ ''_'' @ str_nat k1) = rev (c2 @ ''_'' @ str_nat k2)" by simp
  then have eq: "rev (str_nat k1) @ CHR ''_'' # rev c1 = rev (str_nat k2) @ CHR ''_'' # rev c2"
    by simp
  have "takeWhile ?P (rev (str_nat k1) @ CHR ''_'' # rev c1) = rev (str_nat k1)"
    by (rule takeWhile_before) (use str_nat_no_underscore [of k1] in auto)
  moreover have "takeWhile ?P (rev (str_nat k2) @ CHR ''_'' # rev c2) = rev (str_nat k2)"
    by (rule takeWhile_before) (use str_nat_no_underscore [of k2] in auto)
  ultimately have "rev (str_nat k1) = rev (str_nat k2)" using eq by simp
  then show ?thesis using str_nat_inj by simp
qed

lemma path_join_relative:
  "take 1 b \<noteq> ''/'' \<Longrightarrow> path_join a b = (if a = [] \<or> last a = CHR ''/'' then a else a @ ''/'') @ b"
  by (simp add: path_join_def)

lemma violation_filename_relative: "take 1 (violation_filename c k) \<noteq> ''/''"
  by (simp add: violation_filename_def)

lemma record_path_index:
  "path_join d (violation_filename c1 k1) = path_join d (violation_filename c2 k2) \<Longrightarrow> k1 = k2"
proof -
  assume eq: "path_join d (violation_filename c1 k1) = path_join d (violation_filename c2 k2)"
  have "path_join d (violation_filename c k) =
          (if d = [] \<or> last d = CHR ''/'' then d else d @ ''/'') @ violation_filename c k" for c k
    by (rule path_join_relative [OF violation_filename_relative])
  with eq have "violation_filename c1 k1 = violation_filename c2 k2" by simp
  then show ?thesis by (rule violation_filename_index)
qed

section \<open>The collector\<close>

lemma collect_fst_state:
  "fst (collect_ruff_violations e run p s) = fst (collect_ruff_violations e run p s')"
  by (simp add: collect_ruff_violations_def split: sum.splits prod.splits option.splits)

lemma collect_fs: "fs (snd (collect_ruff_violations e run p s)) = fs s"
  by (simp add: collect_ruff_violations_def log_def split: sum.splits prod.splits option.splits)

lemma collect_tempdirs: "tempdirs (snd (collect_ruff_violations e run p s)) = tempdirs s"
  by (simp add: collect_ruff_violations_def log_def split: sum.splits prod.splits option.splits)

text \<open>
  Claim C8, as stated, asks for a result of the command runner on timeout that is
  distinguished from every other result. It is not: \<^verbatim>\<open>run_command\<close> returns a
  pair of strings in both cases, and a command that completes with an empty stdout and
  the timeout text on stderr gives the very pair a timed-out command gives.
\<close>

theorem C8_counterexample:
  "run_command run_prints_timeout_msg ''ruff check --output-format json .'' ''/tmp/repo_1''
     = run_command run_times_out ''ruff check --output-format json .'' ''/tmp/repo_1''"
  by (simp add: run_command_def run_prints_timeout_msg_def run_times_out_def strip_def
      timeout_msg_def is_space_def)

text \<open>
  Claim C8, amended: when a command exceeds its timeout, \<^verbatim>\<open>run_command\<close>
  returns no partial output but the fixed pair of an empty stdout and the timeout text as
  stderr; a completed command that prints that text on stderr returns the same pair; and
  the collector, which looks at stdout only, returns the empty sequence and leaves the
  state as it was.
\<close>

theorem C8_timeout_in_band:
  assumes "run cmd cwd = TimeoutExpired"
    and "run ''ruff check --output-format json .'' repo_path = TimeoutExpired"
  shows "run_command run cmd cwd = Inr ([], timeout_msg)
       \<and> run_command run_prints_timeout_msg cmd cwd = Inr ([], timeout_msg)
       \<and> collect_ruff_violations e run repo_path s = (Inr (JArr []), s)"
  using assms
  by (simp add: run_command_def collect_ruff_violations_def run_prints_timeout_msg_def strip_def
      timeout_msg_def is_space_def)

theorem C8_timeout_in_band_witness:
  "run_command run_times_out ''git status'' ''/tmp/repo_1'' = Inr ([], timeout_msg)
   \<and> run_command run_prints_timeout_msg ''git status'' ''/tmp/repo_1'' = Inr ([], timeout_msg)
   \<and> collect_ruff_violations ex_env run_times_out ''/tmp/repo_1'' state0 = (Inr (JArr []), state0)"
  using C8_timeout_in_band [of run_times_out "''git status''" "''/tmp/repo_1''" "''/tmp/repo_1''"
      ex_env state0]
  by (simp add: run_times_out_def)

text \<open>
  Claim C3, as stated, has the collector drop the entries that lack a file path. It does
  not: for the analyzer output \<^verbatim>\<open>[{}]\<close> the collector returns the entry
  \<^verbatim>\<open>{}\<close>, whose \<^verbatim>\<open>get("filename")\<close> is None.
\<close>

theorem C3_counterexample:
  "fst (collect_ruff_violations (ex_env\<lparr>json_loads := loads_empty_entry\<rparr>)
          run_prints_empty_entry ''/tmp/repo_1'' state0) = Inr (JArr [JObj []])
   \<and> dict_get (JObj []) ''filename'' = Inr JNull"
  by (simp add: collect_ruff_violations_def run_command_def run_prints_empty_entry_def
      loads_empty_entry_def strip_def is_space_def)

text \<open>
  Claim C3, amended: the collector returns what \<^verbatim>\<open>json.loads\<close> made of a
  non-empty stdout, every entry included; an entry whose
  \<^verbatim>\<open>get("filename")\<close> is missing or empty is passed over afterwards, by the
  loop of \<^verbatim>\<open>mine_repository\<close> (lines 132-134), which raises nothing and leaves
  the state as it was.
\<close>

theorem C3_filter_in_loop:
  assumes "run_command run ''ruff check --output-format json .'' repo_path = Inr (stdout, stderr)"
    and "strip stdout \<noteq> []"
    and "json_loads e stdout = Some parsed"
    and "dict_get v ''filename'' = Inr f"
    and "\<not> truthy f"
  shows "collect_ruff_violations e run repo_path s = (Inr parsed, s)
       \<and> process_violation e cx c commit_dir i v s' = (None, s')"
  using assms by (simp add: collect_ruff_violations_def process_violation_def)

theorem C3_filter_in_loop_witness:
  "collect_ruff_violations (ex_env\<lparr>json_loads := loads_empty_entry\<rparr>)
       run_prints_empty_entry ''/tmp/repo_1'' state0 = (Inr (JArr [JObj []]), state0)
   \<and> process_violation (ex_env\<lparr>json_loads := loads_empty_entry\<rparr>) ex_cx ex_commit
        ''dataset/r/abcdef1'' 0 (JObj []) state0 = (None, state0)"
  using C3_filter_in_loop [of run_prints_empty_entry "''/tmp/repo_1''" "''[{}]''" "[]"
      "ex_env\<lparr>json_loads := loads_empty_entry\<rparr>" "JArr [JObj []]" "JObj []" JNull state0
      ex_cx ex_commit "''dataset/r/abcdef1''" 0 state0]
  by (simp add: run_command_def run_prints_empty_entry_def loads_empty_entry_def strip_def
      is_space_def)

section \<open>What every step leaves in place\<close>

lemmas pv_defs = process_violation_def write_snapshot_def write_record_def write_refused_def
  log_def

lemmas pv_splits = sum.splits json.splits ws_file.splits option.splits prod.splits if_splits

lemma process_violation_tempdirs:
  "tempdirs (snd (process_violation e cx c cd i v s)) = tempdirs s"
  by (auto simp: pv_defs split: pv_splits)

lemma process_violation_exists:
  "fs s p \<noteq> None \<Longrightarrow> fs (snd (process_violation e cx c cd i v s)) p \<noteq> None"
  by (auto simp: pv_defs split: pv_splits)

lemma process_violation_directory:
  "fs s p = Some Directory \<Longrightarrow> fs (snd (process_violation e cx c cd i v s)) p = Some Directory"
  by (auto simp: pv_defs split: pv_splits)

lemma makedirs_fs_cases:
  "fs (snd (makedirs e p s)) = fs s \<or> (fs s p = None \<and> fs (snd (makedirs e p s)) = (fs s)(p \<mapsto> Directory))"
  by (auto simp: makedirs_def split: option.splits node.splits)

lemma persist_loop_preserves:
  assumes step: "\<And>i v s. P s \<Longrightarrow> P (snd (process_violation e cx c cd i v s))"
    and init: "P s"
  shows "P (snd (persist_loop e cx c cd i vs s))"
  using init
proof (induction vs arbitrary: i s)
  case Nil
  then show ?case by simp
next
  case (Cons v vs)
  obtain r s1 where pv: "process_violation e cx c cd i v s = (r, s1)"
    by (cases "process_violation e cx c cd i v s")
  have P1: "P s1" using step [OF Cons.prems, of i v] pv by simp
  show ?case
  proof (cases r)
    case None
    then show ?thesis using pv Cons.IH [OF P1] by simp
  next
    case (Some err)
    then show ?thesis using pv P1 by simp
  qed
qed

lemma persist_preserves:
  assumes step: "\<And>i v s. P s \<Longrightarrow>
      P (snd (process_violation e cx c (path_join (cx_repo_base_dir cx) (take 7 (hexsha c))) i v s))"
    and mk: "\<And>p s. P s \<Longrightarrow> P (snd (makedirs e p s))"
    and init: "P s"
  shows "P (snd (persist e cx c violations s))"
proof -
  let ?cd = "path_join (cx_repo_base_dir cx) (take 7 (hexsha c))"
  obtain r s1 where m: "makedirs e ?cd s = (r, s1)" by (cases "makedirs e ?cd s")
  have P1: "P s1" using mk [OF init, of ?cd] m by simp
  have "P (snd (persist_loop e cx c ?cd 0 vs s1))" for vs
    by (rule persist_loop_preserves [OF step P1])
  then show ?thesis using init m P1
    by (auto simp: persist_def split: option.splits sum.splits)
qed

lemma process_commit_preserves:
  assumes step: "\<And>i v s. P s \<Longrightarrow>
      P (snd (process_violation e cx c (path_join (cx_repo_base_dir cx) (take 7 (hexsha c))) i v s))"
    and mk: "\<And>p s. P s \<Longrightarrow> P (snd (makedirs e p s))"
    and lg: "\<And>m s. P s \<Longrightarrow> P (log m s)"
    and init: "P s"
  shows "P (snd (process_commit e cx c s))"
proof (cases "checkout_ok e (hexsha c)")
  case False
  then show ?thesis using lg [OF init] by (simp add: process_commit_def)
next
  case True
  let ?s0 = "log (LogAnalysing (take 7 (hexsha c)) (committed_date c)) s"
  obtain r s1 where col:
    "collect_ruff_violations e (subprocess_run e (hexsha c)) (cx_temp_dir cx) ?s0 = (r, s1)"
    by (cases "collect_ruff_violations e (subprocess_run e (hexsha c)) (cx_temp_dir cx) ?s0")
  have P0: "P ?s0" by (rule lg [OF init])
  have P1: "P s1" using col P0 lg [OF P0]
    by (auto simp: collect_ruff_violations_def split: sum.splits prod.splits option.splits if_splits)
  have "P (snd (persist e cx c violations s1))" for violations
    by (rule persist_preserves [OF step mk P1])
  then show ?thesis using True col P1
    by (auto simp: process_commit_def split: sum.splits)
qed

lemma commits_loop_preserves:
  assumes step: "\<And>c i v s. P s \<Longrightarrow>
      P (snd (process_violation e cx c (path_join (cx_repo_base_dir cx) (take 7 (hexsha c))) i v s))"
    and mk: "\<And>p s. P s \<Longrightarrow> P (snd (makedirs e p s))"
    and lg: "\<And>m s. P s \<Longrightarrow> P (log m s)"
    and init: "P s"
  shows "P (snd (commits_loop e cx cs s))"
  using init
proof (induction cs arbitrary: s)
  case Nil
  then show ?case by simp
next
  case (Cons c cs)
  obtain r s1 where pc: "process_commit e cx c s = (r, s1)" by (cases "process_commit e cx c s")
  have P1: "P s1" using process_commit_preserves [of P e cx c s, OF step mk lg Cons.prems] pc
    by simp
  show ?case
  proof (cases r)
    case None
    then show ?thesis using pc Cons.IH [OF P1] by simp
  next
    case (Some err)
    then show ?thesis using pc P1 by simp
  qed
qed

lemma makedirs_exists:
  "fs s p \<noteq> None \<Longrightarrow> fs (snd (makedirs e q s)) p \<noteq> None"
  by (auto simp: makedirs_def split: option.splits node.splits)

lemma makedirs_directory:
  "fs s p = Some Directory \<Longrightarrow> fs (snd (makedirs e q s)) p = Some Directory"
  by (auto simp: makedirs_def split: option.splits node.splits)

lemma makedirs_tempdirs: "tempdirs (snd (makedirs e q s)) = tempdirs s"
  by (auto simp: makedirs_def split: option.splits node.splits)

lemma mine_cloned_preserves:
  assumes step: "\<And>cx c i v s. cx_repo_base_dir cx = path_join DATASET (cx_repo_name cx) \<Longrightarrow> P s \<Longrightarrow>
      P (snd (process_violation e cx c (path_join (cx_repo_base_dir cx) (take 7 (hexsha c))) i v s))"
    and mk: "\<And>p s. P s \<Longrightarrow> P (snd (makedirs e p s))"
    and lg: "\<And>m s. P s \<Longrightarrow> P (log m s)"
    and rm: "\<And>d s. P s \<Longrightarrow> P (rmtree d s)"
    and init: "P s"
  shows "P (snd (mine_cloned e repo_url repo_name owner temp_dir r s))"
proof -
  let ?branch = "case active_branch r of Some b \<Rightarrow> b | None \<Rightarrow> ''main''"
  let ?base = "path_join DATASET repo_name"
  let ?cx = "\<lparr>cx_repo_url = repo_url, cx_repo_name = repo_name, cx_owner = owner,
              cx_branch = ?branch, cx_temp_dir = temp_dir, cx_repo_base_dir = ?base\<rparr>"
  show ?thesis
  proof (cases "iter_commits r ?branch")
    case None
    then show ?thesis using init by (simp add: mine_cloned_def)
  next
    case (Some commits)
    let ?s0 = "log (LogCommitsFound (length commits) ?branch) s"
    obtain r1 s1 where m: "makedirs e ?base ?s0 = (r1, s1)" by (cases "makedirs e ?base ?s0")
    have P0: "P ?s0" by (rule lg [OF init])
    have P1: "P s1" using mk [OF P0, of ?base] m by simp
    obtain r2 s2 where l: "commits_loop e ?cx commits s1 = (r2, s2)"
      by (cases "commits_loop e ?cx commits s1")
    have wf: "cx_repo_base_dir ?cx = path_join DATASET (cx_repo_name ?cx)" by simp
    have "P (snd (commits_loop e ?cx commits s1))"
      by (rule commits_loop_preserves [of P e ?cx, OF step [OF wf] mk lg P1])
    then have P2: "P s2" using l by simp
    have P3: "P (log (LogProcessed repo_url) (rmtree temp_dir (log (LogDone (violation_counter s2)) s2)))"
      by (intro lg rm P2)
    show ?thesis using Some m l P1 P2 P3
      by (cases r1; cases r2) (simp_all add: mine_cloned_def)
  qed
qed

lemma mine_repository_preserves:
  assumes step: "\<And>cx c i v s. cx_repo_base_dir cx = path_join DATASET (cx_repo_name cx) \<Longrightarrow> P s \<Longrightarrow>
      P (snd (process_violation e cx c (path_join (cx_repo_base_dir cx) (take 7 (hexsha c))) i v s))"
    and mk: "\<And>p s. P s \<Longrightarrow> P (snd (makedirs e p s))"
    and lg: "\<And>m s. P s \<Longrightarrow> P (log m s)"
    and rm: "\<And>d s. P s \<Longrightarrow> P (rmtree d s)"
    and start: "\<And>d s. P s \<Longrightarrow> P (s\<lparr>tempdirs := insert d (tempdirs s), violation_counter := 0\<rparr>)"
    and init: "P s"
  shows "P (snd (mine_repository e repo_url s))"
proof -
  let ?s1 = "log (LogCloning repo_url)
               (s\<lparr>tempdirs := insert (mkdtemp e) (tempdirs s), violation_counter := 0\<rparr>)"
  have P1: "P ?s1" by (intro lg start init)
  have "P (snd (mine_cloned e repo_url repo_name owner temp_dir r ?s1))" for repo_name owner temp_dir r
    by (rule mine_cloned_preserves [OF step mk lg rm P1])
  moreover have "P (rmtree (mkdtemp e) (log (LogCloneError repo_url) ?s1))"
    by (intro lg rm P1)
  ultimately show ?thesis using init
    by (simp add: mine_repository_def Let_def split: option.splits)
qed


section \<open>Running the small world\<close>

lemmas world_defs = ex_env_def ex_url_def ex_commit_def ex_repo_def ex_entry_def ex_cx_def
  state0_def ex_record_def ex_entry_y_def ex_entry_gone_def ex_entry_no_code_def

lemmas run_defs = mine_repository_def mine_cloned_def process_commit_def persist_def
  collect_ruff_violations_def run_command_def makedirs_def rmtree_def process_violation_def
  write_snapshot_def write_record_def write_refused_def build_violation_data_def
  violation_filename_def log_def path_join_def basename_def strip_def is_space_def DATASET_def
  str_int_def digit_char_def Let_def

lemma split_ex_url: "split_slash ex_url = [''https:'', [], ''github.com'', ''acme'', ''r.git'']"
  by (simp add: ex_url_def)

lemma remove_dot_git_ex: "remove_dot_git ''r.git'' = ''r''"
  by (simp add: remove_dot_git.simps)

lemma str_nat_1: "str_nat (Suc 0) = ''1''"
  by (simp add: str_nat.simps digit_char_def)

lemma str_nat_2: "str_nat (Suc (Suc 0)) = ''2''"
  by (simp add: str_nat.simps digit_char_def)


section \<open>The dataset: invariant and frame\<close>

subsection \<open>Paths of the layout\<close>

lemma basename_no_slash: "CHR ''/'' \<notin> set (basename p)"
proof -
  have "\<forall>x\<in>set (takeWhile (\<lambda>c. c \<noteq> CHR ''/'') (rev p)). x \<noteq> CHR ''/''"
    using set_takeWhileD by fastforce
  then show ?thesis by (auto simp: basename_def)
qed




lemma json_name_record: "json_name (path_join cd (violation_filename x k))"
proof -
  have "path_join cd (violation_filename x k) =
          ((if cd = [] \<or> last cd = CHR ''/'' then cd else cd @ ''/'') @ ''violation_'' @ x @ ''_''
             @ str_nat k) @ ''.json''"
    using path_join_relative [OF violation_filename_relative, of cd x k]
    by (simp add: violation_filename_def)
  then show ?thesis unfolding json_name_def by (simp del: append_assoc)
qed

lemma not_json_name_join:
  assumes nj: "\<not> json_name b" and ns: "CHR ''/'' \<notin> set b"
  shows "\<not> json_name (path_join a b)"
proof
  assume j: "json_name (path_join a b)"
  have rel: "take 1 b \<noteq> ''/''" using ns by (cases b) auto
  define x where "x = (if a = [] \<or> last a = CHR ''/'' then a else a @ ''/'')"
  have pj: "path_join a b = x @ b" using path_join_relative [OF rel, of a] by (simp add: x_def)
  have x: "x = [] \<or> last x = CHR ''/''" by (auto simp: x_def)
  have eq: "take 5 (rev b @ rev x) = rev ''.json''" using j by (simp add: json_name_def pj)
  show False
  proof (cases "5 \<le> length b")
    case True
    then have "take 5 (rev b @ rev x) = take 5 (rev b)" by simp
    with eq have "take 5 (rev b) = rev ''.json''" by metis
    then show False using nj unfolding json_name_def by blast
  next
    case False
    then have lb: "length b < 5" by simp
    show False
    proof (cases "x = []")
      case True
      from eq have "length (take 5 (rev b @ rev x)) = length (rev ''.json'')" by (rule arg_cong)
      then show False using lb True by simp
    next
      case False
      then have "last x = CHR ''/''" using x by simp
      then have hd: "hd (rev x) = CHR ''/''" using False by (simp add: hd_rev)
      have len: "length b < length (take 5 (rev b @ rev x))" using lb False by simp
      have "take 5 (rev b @ rev x) ! length b = (rev b @ rev x) ! length b"
        by (rule nth_take [OF lb])
      also have "\<dots> = rev x ! 0" by (simp add: nth_append)
      also have "\<dots> = CHR ''/''" using hd False by (simp add: hd_conv_nth)
      finally have "rev ''.json'' ! length b = CHR ''/''" using eq by simp
      moreover have "length b = 0 \<or> length b = 1 \<or> length b = 2 \<or> length b = 3 \<or> length b = 4"
        using lb by arith
      ultimately show False by auto
    qed
  qed
qed







subsection \<open>Trees that satisfy the invariant\<close>






subsection \<open>Every step keeps the invariant\<close>


lemma process_violation_fs_shape:
  assumes "dict_get v ''filename'' = Inr (JStr rel)"
  shows "fs (snd (process_violation e cx c cd i v s)) = fs s
     \<or> (fs s (path_join cd (basename rel)) = None
         \<and> (\<exists>t. fs (snd (process_violation e cx c cd i v s))
                  = (fs s)(path_join cd (basename rel) \<mapsto> Snapshot t)))
     \<or> (\<exists>d. entry_record cx c v = Some d
            \<and> fs s (path_join cd (basename rel)) \<noteq> None
            \<and> fs (snd (process_violation e cx c cd i v s))
                 = (fs s)(json_destination e cd (rec_linter_code d) (Suc i) \<mapsto> RecordFile d))
     \<or> (\<exists>d t. entry_record cx c v = Some d
            \<and> fs s (path_join cd (basename rel)) = None
            \<and> fs (snd (process_violation e cx c cd i v s))
                 = (fs s)(path_join cd (basename rel) \<mapsto> Snapshot t,
                          json_destination e cd (rec_linter_code d) (Suc i) \<mapsto> RecordFile d))"
  using assms
  by (auto simp: pv_defs entry_record_def json_destination_def split: pv_splits)











subsection \<open>The snapshot of one violation\<close>









text \<open>
  Claim C7: when the collector returns the empty sequence for a commit, processing that
  commit raises nothing and leaves the dataset tree exactly as it was: no commit directory
  is created and no file is written. The persist step itself returns at once.
\<close>

theorem C7_no_writes_on_empty:
  assumes "fst (collect_ruff_violations e (subprocess_run e (hexsha c)) (cx_temp_dir cx) s) = Inr (JArr [])"
  shows "fst (process_commit e cx c s) = None
       \<and> fs (snd (process_commit e cx c s)) = fs s
       \<and> persist e cx c (JArr []) s = (None, s)"
proof -
  let ?s0 = "log (LogAnalysing (take 7 (hexsha c)) (committed_date c)) s"
  let ?col = "collect_ruff_violations e (subprocess_run e (hexsha c)) (cx_temp_dir cx)"
  have p: "persist e cx c (JArr []) t = (None, t)" for t by (simp add: persist_def)
  obtain r s1 where col: "?col ?s0 = (r, s1)" by (cases "?col ?s0")
  have "fst (?col ?s0) = Inr (JArr [])" using assms collect_fst_state [of e _ _ ?s0 s] by simp
  then have r: "r = Inr (JArr [])" using col by simp
  have "fs s1 = fs ?s0" using collect_fs [of e "subprocess_run e (hexsha c)" "cx_temp_dir cx" ?s0] col
    by simp
  then have f: "fs s1 = fs s" by (simp add: log_def)
  show ?thesis using col r f p
    by (simp add: process_commit_def log_def)
qed

theorem C7_no_writes_on_empty_witness:
  "fst (process_commit (ex_env\<lparr>subprocess_run := (\<lambda>h. run_times_out)\<rparr>) ex_cx ex_commit state0) = None
   \<and> fs (snd (process_commit (ex_env\<lparr>subprocess_run := (\<lambda>h. run_times_out)\<rparr>) ex_cx ex_commit state0))
       = fs state0
   \<and> persist (ex_env\<lparr>subprocess_run := (\<lambda>h. run_times_out)\<rparr>) ex_cx ex_commit (JArr []) state0
       = (None, state0)"
proof -
  have "fst (collect_ruff_violations (ex_env\<lparr>subprocess_run := (\<lambda>h. run_times_out)\<rparr>)
          (subprocess_run (ex_env\<lparr>subprocess_run := (\<lambda>h. run_times_out)\<rparr>) (hexsha ex_commit))
          (cx_temp_dir ex_cx) state0) = Inr (JArr [])"
    by (simp add: collect_ruff_violations_def run_command_def run_times_out_def strip_def)
  then show ?thesis
    by (rule C7_no_writes_on_empty)
qed

section \<open>Snapshots\<close>

lemma snapshot_present:
  assumes rel: "dict_get v ''filename'' = Inr (JStr rel)"
    and present: "fs s (path_join cd (basename rel)) \<noteq> None"
  shows "fs (snd (process_violation e cx c cd i v s)) = fs s
       \<or> (\<exists>d. entry_record cx c v = Some d
              \<and> fs (snd (process_violation e cx c cd i v s))
                   = (fs s)(json_destination e cd (rec_linter_code d) (Suc i) \<mapsto> RecordFile d))"
  using process_violation_fs_shape [OF rel, of e cx c cd i s] present by auto

text \<open>
  Claim C6, as stated, has the first writer's content unchanged once a second violation of
  the same file is persisted. It fails when the file is named like the record of the
  second violation: for a file \<^verbatim>\<open>violation_E501_2.json\<close> with two violations
  of E501, the first violation writes the snapshot (and the record
  \<^verbatim>\<open>violation_E501_1.json\<close>); the second one writes no snapshot, and then its
  record \<^verbatim>\<open>violation_E501_2.json\<close> over the snapshot of the first.
\<close>

theorem C6_counterexample:
  "fst (persist env_json_file ex_cx ex_commit (JArr [ex_entry_json2]) state0) = None
   \<and> fs (snd (persist env_json_file ex_cx ex_commit (JArr [ex_entry_json2]) state0))
       ''dataset/r/abcdef1/violation_E501_2.json'' = Some (Snapshot ''FIRST WRITER'')
   \<and> fst (persist env_json_file ex_cx ex_commit (JArr [ex_entry_json2, ex_entry_json2]) state0) = None
   \<and> fs (snd (persist env_json_file ex_cx ex_commit (JArr [ex_entry_json2, ex_entry_json2]) state0))
       ''dataset/r/abcdef1/violation_E501_2.json'' = Some (RecordFile ex_record_json2)"
  using str_nat_2
  by (simp add: run_defs env_json_file_def ex_env_def ex_cx_def ex_commit_def ex_entry_json2_def
      state0_def ex_record_def ex_record_json2_def str_nat_1 numeral_2_eq_2)

text \<open>
  Claim C6, amended: the snapshot step is idempotent and the first writer wins, as long as
  no record is written over the snapshot. When an entry already exists at the destination,
  the step writes nothing, cannot fail and returns the state it was given. When none
  exists and the write is accepted, the content is stored, and a second call with any
  other content changes nothing. For a whole violation whose file has a snapshot in the
  commit directory already, the tree afterwards is the tree before, or the tree before
  with the record of the violation put at its record path; no snapshot is written: every
  snapshot found afterwards was there before with the same content, and every entry whose
  name does not end in \<^verbatim>\<open>.json\<close> is as it was. When the base name of the
  file does not end in \<^verbatim>\<open>.json\<close>, the snapshot of the file still holds the
  first writer's content.
\<close>

theorem C6_snapshot_first_writer_wins:
  "(fs s dest \<noteq> None \<longrightarrow> write_snapshot e dest content s = (None, s))
   \<and> (fs s dest = None \<and> \<not> open_w_fails e dest \<longrightarrow>
        write_snapshot e dest first s = (None, s\<lparr>fs := (fs s)(dest \<mapsto> Snapshot first)\<rparr>)
        \<and> write_snapshot e dest second (s\<lparr>fs := (fs s)(dest \<mapsto> Snapshot first)\<rparr>)
            = (None, s\<lparr>fs := (fs s)(dest \<mapsto> Snapshot first)\<rparr>))
   \<and> (dict_get v ''filename'' = Inr (JStr rel)
        \<and> fs s (path_join commit_dir (basename rel)) = Some (Snapshot first) \<longrightarrow>
        (fs (snd (process_violation e cx c commit_dir i v s)) = fs s
         \<or> (\<exists>d. entry_record cx c v = Some d
                \<and> fs (snd (process_violation e cx c commit_dir i v s))
                     = (fs s)(json_destination e commit_dir (rec_linter_code d) (Suc i)
                                \<mapsto> RecordFile d)))
        \<and> (\<forall>p t. fs (snd (process_violation e cx c commit_dir i v s)) p = Some (Snapshot t)
               \<longrightarrow> fs s p = Some (Snapshot t))
        \<and> (\<forall>p. \<not> json_name p \<longrightarrow> fs (snd (process_violation e cx c commit_dir i v s)) p = fs s p)
        \<and> (\<not> json_name (basename rel) \<longrightarrow>
             fs (snd (process_violation e cx c commit_dir i v s))
                (path_join commit_dir (basename rel)) = Some (Snapshot first)))"
proof (intro conjI impI)
  assume "fs s dest \<noteq> None"
  then show "write_snapshot e dest content s = (None, s)" by (simp add: write_snapshot_def)
next
  assume a: "fs s dest = None \<and> \<not> open_w_fails e dest"
  then show "write_snapshot e dest first s = (None, s\<lparr>fs := (fs s)(dest \<mapsto> Snapshot first)\<rparr>)"
    by (simp add: write_snapshot_def)
  show "write_snapshot e dest second (s\<lparr>fs := (fs s)(dest \<mapsto> Snapshot first)\<rparr>)
            = (None, s\<lparr>fs := (fs s)(dest \<mapsto> Snapshot first)\<rparr>)"
    by (simp add: write_snapshot_def)
next
  let ?s' = "snd (process_violation e cx c commit_dir i v s)"
  let ?dest = "path_join commit_dir (basename rel)"
  assume a: "dict_get v ''filename'' = Inr (JStr rel) \<and> fs s ?dest = Some (Snapshot first)"
  then have rel: "dict_get v ''filename'' = Inr (JStr rel)" and present: "fs s ?dest \<noteq> None"
    and first: "fs s ?dest = Some (Snapshot first)" by simp_all
  note shape = snapshot_present [OF rel present, of e cx c i]
  have jn: "json_name (json_destination e commit_dir code k)" for code k
    unfolding json_destination_def by (rule json_name_record)
  show "fs ?s' = fs s
         \<or> (\<exists>d. entry_record cx c v = Some d
                \<and> fs ?s' = (fs s)(json_destination e commit_dir (rec_linter_code d) (Suc i)
                                \<mapsto> RecordFile d))"
    by (rule shape)
  show "\<forall>p t. fs ?s' p = Some (Snapshot t) \<longrightarrow> fs s p = Some (Snapshot t)"
    using shape by (auto split: if_splits)
  show other: "\<forall>p. \<not> json_name p \<longrightarrow> fs ?s' p = fs s p"
    using shape jn by auto
  show "fs ?s' ?dest = Some (Snapshot first)" if "\<not> json_name (basename rel)"
  proof -
    have "\<not> json_name ?dest" using that basename_no_slash by (rule not_json_name_join)
    then show ?thesis using other first by simp
  qed
qed

theorem C6_snapshot_first_writer_wins_witness:
  "write_snapshot ex_env ''dataset/r/abcdef1/x.py'' ''import sys'' state_with_x = (None, state_with_x)
   \<and> write_snapshot ex_env ''dataset/r/abcdef1/x.py'' ''import os'' state0
       = (None, state0\<lparr>fs := (fs state0)(''dataset/r/abcdef1/x.py'' \<mapsto> Snapshot ''import os'')\<rparr>)
   \<and> write_snapshot ex_env ''dataset/r/abcdef1/x.py'' ''import sys''
         (state0\<lparr>fs := (fs state0)(''dataset/r/abcdef1/x.py'' \<mapsto> Snapshot ''import os'')\<rparr>)
       = (None, state0\<lparr>fs := (fs state0)(''dataset/r/abcdef1/x.py'' \<mapsto> Snapshot ''import os'')\<rparr>)
   \<and> fs (snd (process_violation ex_env ex_cx ex_commit ''dataset/r/abcdef1'' 1 ex_entry_x2 state_with_x))
       = (fs state_with_x)(''dataset/r/abcdef1/violation_F401_2.json'' \<mapsto> RecordFile ex_record_x2)
   \<and> fs (snd (process_violation ex_env ex_cx ex_commit ''dataset/r/abcdef1'' 1 ex_entry_x2 state_with_x))
         ''dataset/r/abcdef1/x.py'' = Some (Snapshot ''import os'')"
proof -
  let ?x = "''dataset/r/abcdef1/x.py''"
  have a: "fs state_with_x ?x \<noteq> None" by (simp add: state_with_x_def)
  have b: "fs state0 ?x = None \<and> \<not> open_w_fails ex_env ?x" by (simp add: state0_def ex_env_def)
  have dest: "path_join ''dataset/r/abcdef1'' (basename ''x.py'') = ?x"
    by (simp add: path_join_def basename_def)
  have c: "dict_get ex_entry_x2 ''filename'' = Inr (JStr ''x.py'')
      \<and> fs state_with_x (path_join ''dataset/r/abcdef1'' (basename ''x.py''))
          = Some (Snapshot ''import os'')"
    by (simp add: ex_entry_x2_def state_with_x_def dest)
  have nj: "\<not> json_name (basename ''x.py'')" by (simp add: json_name_def basename_def)
  have d: "fs (snd (process_violation ex_env ex_cx ex_commit ''dataset/r/abcdef1'' 1 ex_entry_x2 state_with_x))
       = (fs state_with_x)(''dataset/r/abcdef1/violation_F401_2.json'' \<mapsto> RecordFile ex_record_x2)"
    by (simp add: run_defs world_defs state_with_x_def ex_entry_x2_def ex_record_x2_def str_nat_2)
  note t1 = C6_snapshot_first_writer_wins [where s = state_with_x and dest = ?x and e = ex_env
      and content = "''import sys''"]
  note t2 = C6_snapshot_first_writer_wins [where s = state0 and dest = ?x and e = ex_env
      and first = "''import os''" and second = "''import sys''"]
  note t3 = C6_snapshot_first_writer_wins [where s = state_with_x and e = ex_env
      and v = ex_entry_x2 and rel = "''x.py''" and commit_dir = "''dataset/r/abcdef1''"
      and first = "''import os''" and cx = ex_cx and c = ex_commit and i = 1]
  have w1: "write_snapshot ex_env ?x ''import sys'' state_with_x = (None, state_with_x)"
    using t1 a by blast
  have w2: "write_snapshot ex_env ?x ''import os'' state0
       = (None, state0\<lparr>fs := (fs state0)(?x \<mapsto> Snapshot ''import os'')\<rparr>)
     \<and> write_snapshot ex_env ?x ''import sys''
         (state0\<lparr>fs := (fs state0)(?x \<mapsto> Snapshot ''import os'')\<rparr>)
       = (None, state0\<lparr>fs := (fs state0)(?x \<mapsto> Snapshot ''import os'')\<rparr>)"
    using t2 b by blast
  have w3: "fs (snd (process_violation ex_env ex_cx ex_commit ''dataset/r/abcdef1'' 1 ex_entry_x2
                  state_with_x)) (path_join ''dataset/r/abcdef1'' (basename ''x.py''))
              = Some (Snapshot ''import os'')"
    using t3 c nj by blast
  show ?thesis using w1 w2 w3 d dest by simp
qed

section \<open>Failures that escape\<close>

text \<open>What the code does guarantee about the workspace: a call that returns normally
  has removed its temporary directory, and no other one.\<close>

lemma commits_loop_tempdirs: "tempdirs (snd (commits_loop e cx cs s)) = tempdirs s"
proof (rule commits_loop_preserves [where P = "\<lambda>t. tempdirs t = tempdirs s"])
  show "tempdirs (snd (makedirs e p t)) = tempdirs s" if "tempdirs t = tempdirs s" for p t
    using that by (simp add: makedirs_tempdirs)
  show "tempdirs (log m t) = tempdirs s" if "tempdirs t = tempdirs s" for m t
    using that by (simp add: log_def)
qed (simp_all add: process_violation_tempdirs)

lemma mine_repository_releases_on_return:
  assumes "fst (mine_repository e repo_url s) = None"
  shows "tempdirs (snd (mine_repository e repo_url s)) = tempdirs s - {mkdtemp e}"
proof -
  let ?s1 = "log (LogCloning repo_url)
               (s\<lparr>tempdirs := insert (mkdtemp e) (tempdirs s), violation_counter := 0\<rparr>)"
  have t1: "tempdirs ?s1 = insert (mkdtemp e) (tempdirs s)" by (simp add: log_def)
  have parts: "\<not> length (split_slash repo_url) < 2"
    using assms by (auto simp: mine_repository_def Let_def split: if_splits)
  show ?thesis
  proof (cases "clone_from e repo_url (mkdtemp e)")
    case None
    then show ?thesis using parts by (simp add: mine_repository_def Let_def rmtree_def log_def)
  next
    case (Some r)
    let ?name = "remove_dot_git (last (split_slash repo_url))"
    let ?owner = "split_slash repo_url ! (length (split_slash repo_url) - 2)"
    have eq: "mine_repository e repo_url s = mine_cloned e repo_url ?name ?owner (mkdtemp e) r ?s1"
      using Some parts by (simp add: mine_repository_def Let_def)
    let ?branch = "case active_branch r of Some b \<Rightarrow> b | None \<Rightarrow> ''main''"
    from assms eq obtain commits where commits: "iter_commits r ?branch = Some commits"
      by (cases "iter_commits r ?branch") (simp_all add: mine_cloned_def)
    let ?s2 = "log (LogCommitsFound (length commits) ?branch) ?s1"
    obtain r3 s3 where mk: "makedirs e (path_join DATASET ?name) ?s2 = (r3, s3)"
      by (cases "makedirs e (path_join DATASET ?name) ?s2")
    have r3: "r3 = None" using assms eq commits mk by (cases r3) (simp_all add: mine_cloned_def)
    have t3: "tempdirs s3 = insert (mkdtemp e) (tempdirs s)"
      using makedirs_tempdirs [of e "path_join DATASET ?name" ?s2] mk by (simp add: log_def)
    let ?cx = "\<lparr>cx_repo_url = repo_url, cx_repo_name = ?name, cx_owner = ?owner,
                cx_branch = ?branch, cx_temp_dir = mkdtemp e,
                cx_repo_base_dir = path_join DATASET ?name\<rparr>"
    obtain r4 s4 where loop: "commits_loop e ?cx commits s3 = (r4, s4)"
      by (cases "commits_loop e ?cx commits s3")
    have r4: "r4 = None"
      using assms eq commits mk r3 loop by (cases r4) (simp_all add: mine_cloned_def)
    have t4: "tempdirs s4 = insert (mkdtemp e) (tempdirs s)"
      using commits_loop_tempdirs [of e ?cx commits s3] loop t3 by simp
    show ?thesis
      using eq commits mk r3 loop r4 t4 by (simp add: mine_cloned_def rmtree_def log_def)
  qed
qed

text \<open>A refused record write (lines 172-177) is logged and nothing else happens: the
  body of the loop ends normally, so the loop goes on with the next violation.\<close>

lemma refused_record_is_logged:
  "write_refused e s p \<Longrightarrow> write_record e p d s = log LogSaveJsonError s"
  by (simp add: write_record_def)

lemma record_write_never_raises:
  assumes "dict_get v ''filename'' = Inr (JStr rel)"
    and "worktree e (hexsha c) (path_join (cx_temp_dir cx) rel) = Readable content"
    and "write_snapshot e (path_join cd (basename rel)) content s = (None, s1)"
    and "build_violation_data cx c rel (basename rel) v = Inr d"
  shows "fst (process_violation e cx c cd i v s) = None"
  using assms by (auto simp: process_violation_def split: if_splits)

text \<open>
  Claim C2 on the code: two violations in one commit, and the system refuses the write of
  the first one's snapshot (line 151, outside any \<^verbatim>\<open>try\<close>). The error leaves
  the loop: nothing is logged, and the second violation gets neither snapshot nor record.
  The error leaves \<^verbatim>\<open>mine_repository\<close> as well.
\<close>

theorem C2_snapshot_failure_escapes:
  "fst (persist env_disk_full ex_cx ex_commit (JArr [ex_entry, ex_entry_y]) state0) = Some OSError
   \<and> logs (snd (persist env_disk_full ex_cx ex_commit (JArr [ex_entry, ex_entry_y]) state0)) = []
   \<and> fs (snd (persist env_disk_full ex_cx ex_commit (JArr [ex_entry, ex_entry_y]) state0))
        ''dataset/r/abcdef1/y.py'' = None
   \<and> fs (snd (persist env_disk_full ex_cx ex_commit (JArr [ex_entry, ex_entry_y]) state0))
        ''dataset/r/abcdef1/violation_E501_2.json'' = None
   \<and> fst (mine_repository env_disk_full ex_url state0) = Some OSError"
  by (simp add: run_defs world_defs env_disk_full_def split_ex_url remove_dot_git_ex str_nat_1 str_nat_2)

text \<open>
  Claim C1 on the code: the clone succeeds and an exception is raised inside the loop over
  the commits (here the refused snapshot write). The call ends with that exception, and
  the temporary directory it created is still there: line 184 is not reached.
\<close>

theorem C1_workspace_left_behind:
  "clone_from env_disk_full ex_url (mkdtemp env_disk_full) = Some ex_repo
   \<and> fst (mine_repository env_disk_full ex_url state0) = Some OSError
   \<and> mkdtemp env_disk_full \<in> tempdirs (snd (mine_repository env_disk_full ex_url state0))
   \<and> mkdtemp env_disk_full \<notin> tempdirs state0"
  by (simp add: run_defs world_defs env_disk_full_def split_ex_url remove_dot_git_ex str_nat_1 str_nat_2)

section \<open>The project directory\<close>

lemma makedirs_ok:
  assumes "\<not> makedirs_fails e p" and "fs s p = None \<or> fs s p = Some Directory"
  shows "fst (makedirs e p s) = None"
    and "fs (snd (makedirs e p s)) = (fs s)(p \<mapsto> Directory)"
    and "logs (snd (makedirs e p s)) = logs s"
    and "tempdirs (snd (makedirs e p s)) = tempdirs s"
    and "violation_counter (snd (makedirs e p s)) = violation_counter s"
  using assms by (auto simp: makedirs_def fun_upd_idem)

lemma collect_truthy_state:
  assumes "fst (collect_ruff_violations e run p s) = Inr j" and "truthy j"
  shows "collect_ruff_violations e run p s' = (Inr j, s')"
  using assms
  by (auto simp: collect_ruff_violations_def split: sum.splits prod.splits option.splits if_splits)

lemma process_commit_idle:
  assumes "\<not> checkout_ok e (hexsha c)
      \<or> fst (collect_ruff_violations e (subprocess_run e (hexsha c)) (cx_temp_dir cx) s0) = Inr (JArr [])"
  shows "fst (process_commit e cx c s) = None \<and> fs (snd (process_commit e cx c s)) = fs s"
proof (cases "checkout_ok e (hexsha c)")
  case False
  then show ?thesis by (simp add: process_commit_def log_def)
next
  case True
  let ?s1 = "log (LogAnalysing (take 7 (hexsha c)) (committed_date c)) s"
  let ?col = "collect_ruff_violations e (subprocess_run e (hexsha c)) (cx_temp_dir cx)"
  obtain r s2 where col: "?col ?s1 = (r, s2)" by (cases "?col ?s1")
  have "fst (?col ?s1) = Inr (JArr [])"
    using assms True collect_fst_state [of e _ _ ?s1 s0] by simp
  then have r: "r = Inr (JArr [])" using col by simp
  have "fs s2 = fs ?s1"
    using collect_fs [of e "subprocess_run e (hexsha c)" "cx_temp_dir cx" ?s1] col by simp
  then have "fs s2 = fs s" by (simp add: log_def)
  then show ?thesis using True col r by (simp add: process_commit_def persist_def)
qed

lemma commits_loop_idle:
  assumes "\<forall>c\<in>set cs. \<not> checkout_ok e (hexsha c)
      \<or> fst (collect_ruff_violations e (subprocess_run e (hexsha c)) (cx_temp_dir cx) s0) = Inr (JArr [])"
  shows "fst (commits_loop e cx cs s) = None \<and> fs (snd (commits_loop e cx cs s)) = fs s"
  using assms
proof (induction cs arbitrary: s)
  case Nil
  then show ?case by simp
next
  case (Cons c cs)
  obtain r s1 where pc: "process_commit e cx c s = (r, s1)" by (cases "process_commit e cx c s")
  have "fst (process_commit e cx c s) = None \<and> fs (snd (process_commit e cx c s)) = fs s"
    by (rule process_commit_idle [where ?s0.0 = s0]) (use Cons.prems in simp)
  then have r: "r = None" and f: "fs s1 = fs s" using pc by simp_all
  have "fst (commits_loop e cx cs s1) = None \<and> fs (snd (commits_loop e cx cs s1)) = fs s1"
    by (rule Cons.IH) (use Cons.prems in simp)
  then show ?case using pc r f by simp
qed

lemma commits_loop_directory:
  assumes "fs s p = Some Directory"
  shows "fs (snd (commits_loop e cx cs s)) p = Some Directory"
proof (rule commits_loop_preserves [where P = "\<lambda>s. fs s p = Some Directory"])
  show "fs (snd (makedirs e q s)) p = Some Directory" if "fs s p = Some Directory" for q s
    using that by (rule makedirs_directory)
  show "fs (log m s) p = Some Directory" if "fs s p = Some Directory" for m s
    using that by (simp add: log_def)
qed (use assms in \<open>simp_all add: process_violation_directory\<close>)

lemma mine_repository_unfold:
  assumes parts: "2 \<le> length (split_slash repo_url)"
    and clone: "clone_from e repo_url (mkdtemp e) = Some r"
    and branch: "branch = (case active_branch r of Some b \<Rightarrow> b | None \<Rightarrow> ''main'')"
    and commits: "iter_commits r branch = Some commits"
    and base: "base = path_join DATASET (remove_dot_git (last (split_slash repo_url)))"
    and base_ok: "\<not> makedirs_fails e base" "fs s base = None \<or> fs s base = Some Directory"
    and s1: "s1 = snd (makedirs e base (log (LogCommitsFound (length commits) branch)
                 (log (LogCloning repo_url)
                    (s\<lparr>tempdirs := insert (mkdtemp e) (tempdirs s), violation_counter := 0\<rparr>))))"
  shows "mine_repository e repo_url s =
           (case commits_loop e (loop_ctx e repo_url branch) commits s1 of
              (Some err, s2) \<Rightarrow> (Some err, s2)
            | (None, s2) \<Rightarrow>
                (None, log (LogProcessed repo_url)
                         (rmtree (mkdtemp e) (log (LogDone (violation_counter s2)) s2))))"
    and "fs s1 = (fs s)(base \<mapsto> Directory)"
    and "logs s1 = logs s @ [LogCloning repo_url, LogCommitsFound (length commits) branch]"
    and "tempdirs s1 = insert (mkdtemp e) (tempdirs s)"
    and "violation_counter s1 = 0"
proof -
  let ?sa = "log (LogCommitsFound (length commits) branch)
               (log (LogCloning repo_url)
                  (s\<lparr>tempdirs := insert (mkdtemp e) (tempdirs s), violation_counter := 0\<rparr>))"
  have free: "fs ?sa base = None \<or> fs ?sa base = Some Directory"
    using base_ok(2) by (simp add: log_def)
  note mk = makedirs_ok [OF base_ok(1) free]
  obtain r1 where m: "makedirs e base ?sa = (r1, s1)" using s1 by (cases "makedirs e base ?sa") simp
  have r1: "r1 = None" using mk(1) m by simp
  show "fs s1 = (fs s)(base \<mapsto> Directory)" using mk(2) s1 by (simp add: log_def)
  show "logs s1 = logs s @ [LogCloning repo_url, LogCommitsFound (length commits) branch]"
    using mk(3) s1 by (simp add: log_def)
  show "tempdirs s1 = insert (mkdtemp e) (tempdirs s)" using mk(4) s1 by (simp add: log_def)
  show "violation_counter s1 = 0" using mk(5) s1 by (simp add: log_def)
  have nlt: "\<not> length (split_slash repo_url) < 2" using parts by simp
  show "mine_repository e repo_url s =
           (case commits_loop e (loop_ctx e repo_url branch) commits s1 of
              (Some err, s2) \<Rightarrow> (Some err, s2)
            | (None, s2) \<Rightarrow>
                (None, log (LogProcessed repo_url)
                         (rmtree (mkdtemp e) (log (LogDone (violation_counter s2)) s2))))"
    using nlt clone commits m r1
    by (simp add: mine_repository_def mine_cloned_def Let_def loop_ctx_def
        branch [symmetric] base [symmetric])
qed

text \<open>
  Claim C10, as stated, has the project directory created for every repository whose
  clone succeeds. Line 107 lists the commits before lines 110-111 create the directory,
  and outside any \<^verbatim>\<open>try\<close>: for a clone whose commits cannot be listed, the
  exception leaves \<^verbatim>\<open>mine_repository\<close> and no project directory exists.
\<close>

theorem C10_counterexample:
  "clone_from env_empty_repo ex_url (mkdtemp env_empty_repo) = Some ex_empty_repo
   \<and> fst (mine_repository env_empty_repo ex_url state0) = Some GitCommandError
   \<and> fs (snd (mine_repository env_empty_repo ex_url state0)) ''dataset/r'' = None"
  by (simp add: run_defs split_ex_url remove_dot_git_ex env_empty_repo_def ex_empty_repo_def
      ex_env_def state0_def)

text \<open>
  Claim C10, amended: when the clone has succeeded, the commits could be listed (line
  107 did not raise) and the system accepts the directory, the project directory
  \<^verbatim>\<open>dataset/<project_name>\<close> is a directory when
  \<^verbatim>\<open>mine_repository\<close> ends, however it ends. It is there before any commit
  is processed: the call behaves as the loop over the commits started in a state that
  holds it. And when every commit yields nothing (its checkout fails or the collector
  returns the empty sequence), the call returns normally and the project directory is
  the only change to the dataset tree: no commit directory exists under it.
\<close>

theorem C10_base_dir_created:
  assumes parts: "2 \<le> length (split_slash repo_url)"
    and clone: "clone_from e repo_url (mkdtemp e) = Some r"
    and branch: "branch = (case active_branch r of Some b \<Rightarrow> b | None \<Rightarrow> ''main'')"
    and commits: "iter_commits r branch = Some commits"
    and base: "base = path_join DATASET (remove_dot_git (last (split_slash repo_url)))"
    and base_ok: "\<not> makedirs_fails e base" "fs s base = None \<or> fs s base = Some Directory"
  shows "fs (snd (mine_repository e repo_url s)) base = Some Directory
     \<and> (\<exists>s1. fs s1 = (fs s)(base \<mapsto> Directory)
            \<and> fst (mine_repository e repo_url s)
                = fst (commits_loop e (loop_ctx e repo_url branch) commits s1)
            \<and> fs (snd (mine_repository e repo_url s))
                = fs (snd (commits_loop e (loop_ctx e repo_url branch) commits s1)))
     \<and> ((\<forall>c\<in>set commits. \<not> checkout_ok e (hexsha c)
            \<or> fst (collect_ruff_violations e (subprocess_run e (hexsha c)) (mkdtemp e) s)
                = Inr (JArr []))
         \<longrightarrow> fst (mine_repository e repo_url s) = None
             \<and> fs (snd (mine_repository e repo_url s)) = (fs s)(base \<mapsto> Directory))"
proof -
  define s1 where "s1 = snd (makedirs e base (log (LogCommitsFound (length commits) branch)
                 (log (LogCloning repo_url)
                    (s\<lparr>tempdirs := insert (mkdtemp e) (tempdirs s), violation_counter := 0\<rparr>))))"
  note u = mine_repository_unfold [OF parts clone branch commits base base_ok s1_def]
  let ?loop = "commits_loop e (loop_ctx e repo_url branch) commits s1"
  obtain r2 s2 where l: "?loop = (r2, s2)" by (cases ?loop)
  have res: "fst (mine_repository e repo_url s) = fst ?loop"
    "fs (snd (mine_repository e repo_url s)) = fs (snd ?loop)"
    using u(1) l by (cases r2; simp add: log_def rmtree_def)+
  have d1: "fs s1 base = Some Directory" using u(2) by simp
  have d2: "fs (snd ?loop) base = Some Directory" using d1 by (rule commits_loop_directory)
  have idle: "fst ?loop = None \<and> fs (snd ?loop) = fs s1"
    if "\<forall>c\<in>set commits. \<not> checkout_ok e (hexsha c)
            \<or> fst (collect_ruff_violations e (subprocess_run e (hexsha c)) (mkdtemp e) s)
                = Inr (JArr [])"
    by (rule commits_loop_idle [where ?s0.0 = s]) (use that in \<open>simp add: loop_ctx_def\<close>)
  show ?thesis using res d2 u(2) idle by auto
qed

theorem C10_base_dir_created_witness:
  "fs (snd (mine_repository (ex_env\<lparr>subprocess_run := (\<lambda>h. run_times_out)\<rparr>) ex_url state0))
       ''dataset/r'' = Some Directory
   \<and> fst (mine_repository (ex_env\<lparr>subprocess_run := (\<lambda>h. run_times_out)\<rparr>) ex_url state0) = None
   \<and> fs (snd (mine_repository (ex_env\<lparr>subprocess_run := (\<lambda>h. run_times_out)\<rparr>) ex_url state0))
       = (fs state0)(''dataset/r'' \<mapsto> Directory)
   \<and> fs (snd (mine_repository (ex_env\<lparr>subprocess_run := (\<lambda>h. run_times_out)\<rparr>) ex_url state0))
       ''dataset/r/abcdef1'' = None"
proof -
  let ?e = "ex_env\<lparr>subprocess_run := (\<lambda>h. run_times_out)\<rparr>"
  have parts: "2 \<le> length (split_slash ex_url)" by (simp add: split_ex_url)
  have clone: "clone_from ?e ex_url (mkdtemp ?e) = Some ex_repo" by (simp add: ex_env_def)
  have branch: "''main'' = (case active_branch ex_repo of Some b \<Rightarrow> b | None \<Rightarrow> ''main'')"
    by (simp add: ex_repo_def)
  have commits: "iter_commits ex_repo ''main'' = Some [ex_commit]" by (simp add: ex_repo_def)
  have base: "''dataset/r'' = path_join DATASET (remove_dot_git (last (split_slash ex_url)))"
    by (simp add: split_ex_url remove_dot_git_ex path_join_def DATASET_def)
  have ok: "\<not> makedirs_fails ?e ''dataset/r''" by (simp add: ex_env_def)
  have free: "fs state0 ''dataset/r'' = None \<or> fs state0 ''dataset/r'' = Some Directory"
    by (simp add: state0_def)
  have empty: "\<forall>c\<in>set [ex_commit]. \<not> checkout_ok ?e (hexsha c)
      \<or> fst (collect_ruff_violations ?e (subprocess_run ?e (hexsha c)) (mkdtemp ?e) state0)
          = Inr (JArr [])"
    by (simp add: collect_ruff_violations_def run_command_def run_times_out_def strip_def)
  have none: "((fs state0)(''dataset/r'' \<mapsto> Directory)) ''dataset/r/abcdef1'' = None"
    by (simp add: state0_def)
  show ?thesis
    using C10_base_dir_created [OF parts clone branch commits base ok free] empty none
    by simp
qed

lemma process_violation_key_error:
  assumes src: "map_of kvs ''filename'' = Some (JStr rel)" "rel \<noteq> []"
      "worktree e (hexsha c) (path_join (cx_temp_dir cx) rel) = Readable content"
    and snap_ok: "\<not> open_w_fails e (path_join cd (basename rel))"
    and lacks: "map_of kvs ''location'' = None
       \<or> (\<exists>loc. map_of kvs ''location'' = Some (JObj loc)
             \<and> (map_of loc ''row'' = None \<or> map_of kvs ''code'' = None
                 \<or> map_of kvs ''message'' = None))"
  shows "\<exists>k. fst (process_violation e cx c cd i (JObj kvs) s) = Some (KeyError k)"
    and "logs (snd (process_violation e cx c cd i (JObj kvs) s)) = logs s"
    and "tempdirs (snd (process_violation e cx c cd i (JObj kvs) s)) = tempdirs s"
    and "violation_counter (snd (process_violation e cx c cd i (JObj kvs) s)) = violation_counter s"
  using assms
  by (auto simp: process_violation_def write_snapshot_def build_violation_data_def
      split: option.splits)

section \<open>Entries without their keys\<close>

text \<open>
  Claim C9: the first entry the analyzer reports for the first commit names a file that
  exists in the clone and can be read, but lacks \<^verbatim>\<open>location\<close>, or its
  location lacks \<^verbatim>\<open>row\<close>, or the entry lacks \<^verbatim>\<open>code\<close> or
  \<^verbatim>\<open>message\<close>. Then building the record raises a KeyError that nothing
  catches: it ends \<^verbatim>\<open>mine_repository\<close>. No record was written, the log stops at
  the analysis of this commit (the entry is not skipped with a message, and no later entry
  or commit is looked at), and the temporary directory is left behind.
\<close>

theorem C9_missing_key_aborts_repository:
  assumes parts: "2 \<le> length (split_slash repo_url)"
    and clone: "clone_from e repo_url (mkdtemp e) = Some r"
    and branch: "branch = (case active_branch r of Some b \<Rightarrow> b | None \<Rightarrow> ''main'')"
    and commits: "iter_commits r branch = Some (c # cs)"
    and base: "base = path_join DATASET (remove_dot_git (last (split_slash repo_url)))"
    and base_ok: "\<not> makedirs_fails e base" "fs s base = None \<or> fs s base = Some Directory"
    and checkout: "checkout_ok e (hexsha c)"
    and collected: "fst (collect_ruff_violations e (subprocess_run e (hexsha c)) (mkdtemp e) s)
                      = Inr (JArr (JObj kvs # vs))"
    and cdir: "commit_dir = path_join base (take 7 (hexsha c))"
    and cdir_ok: "\<not> makedirs_fails e commit_dir"
      "fs s commit_dir = None \<or> fs s commit_dir = Some Directory"
    and src: "map_of kvs ''filename'' = Some (JStr rel)" "rel \<noteq> []"
      "worktree e (hexsha c) (path_join (mkdtemp e) rel) = Readable content"
    and snap_ok: "\<not> open_w_fails e (path_join commit_dir (basename rel))"
    and lacks: "map_of kvs ''location'' = None
       \<or> (\<exists>loc. map_of kvs ''location'' = Some (JObj loc)
             \<and> (map_of loc ''row'' = None \<or> map_of kvs ''code'' = None
                 \<or> map_of kvs ''message'' = None))"
  shows "(\<exists>k. fst (mine_repository e repo_url s) = Some (KeyError k))
       \<and> mkdtemp e \<in> tempdirs (snd (mine_repository e repo_url s))
       \<and> violation_counter (snd (mine_repository e repo_url s)) = 0
       \<and> logs (snd (mine_repository e repo_url s))
           = logs s @ [LogCloning repo_url, LogCommitsFound (Suc (length cs)) branch,
                       LogAnalysing (take 7 (hexsha c)) (committed_date c)]"
proof -
  define s1 where "s1 = snd (makedirs e base (log (LogCommitsFound (length (c # cs)) branch)
                 (log (LogCloning repo_url)
                    (s\<lparr>tempdirs := insert (mkdtemp e) (tempdirs s), violation_counter := 0\<rparr>))))"
  note u = mine_repository_unfold [OF parts clone branch commits base base_ok s1_def]
  let ?cx = "loop_ctx e repo_url branch"
  have cx: "cx_temp_dir ?cx = mkdtemp e" "cx_repo_base_dir ?cx = base"
    by (simp_all add: loop_ctx_def base)
  define s2 where "s2 = log (LogAnalysing (take 7 (hexsha c)) (committed_date c)) s1"
  have col: "collect_ruff_violations e (subprocess_run e (hexsha c)) (mkdtemp e) s2
               = (Inr (JArr (JObj kvs # vs)), s2)"
    by (rule collect_truthy_state [OF collected]) simp
  have free: "fs s2 commit_dir = None \<or> fs s2 commit_dir = Some Directory"
    using cdir_ok(2) u(2) by (auto simp: s2_def log_def)
  note mk = makedirs_ok [OF cdir_ok(1) free]
  define s3 where "s3 = snd (makedirs e commit_dir s2)"
  have m: "makedirs e commit_dir s2 = (None, s3)"
    using mk(1) by (cases "makedirs e commit_dir s2") (simp add: s3_def)
  have src': "worktree e (hexsha c) (path_join (cx_temp_dir ?cx) rel) = Readable content"
    using src(3) cx(1) by simp
  note ke = process_violation_key_error [OF src(1) src(2) src' snap_ok lacks,
      where i = 0 and s = s3]
  let ?pv = "process_violation e ?cx c commit_dir 0 (JObj kvs) s3"
  obtain k where k: "fst ?pv = Some (KeyError k)" using ke(1) by blast
  obtain s4 where pv: "?pv = (Some (KeyError k), s4)" using k by (cases ?pv) simp
  have s4: "logs s4 = logs s3" "tempdirs s4 = tempdirs s3" "violation_counter s4 = violation_counter s3"
    using ke(2,3,4) pv by simp_all
  have pers: "persist e ?cx c (JArr (JObj kvs # vs)) s2 = (Some (KeyError k), s4)"
    using m pv by (simp add: persist_def cx cdir [symmetric])
  have pc: "process_commit e ?cx c s1 = (Some (KeyError k), s4)"
    using checkout col pers by (simp add: process_commit_def cx s2_def)
  have loop: "commits_loop e ?cx (c # cs) s1 = (Some (KeyError k), s4)"
    using pc by simp
  have res: "mine_repository e repo_url s = (Some (KeyError k), s4)"
    using u(1) loop by simp
  have "logs s4 = logs s @ [LogCloning repo_url, LogCommitsFound (Suc (length cs)) branch,
                       LogAnalysing (take 7 (hexsha c)) (committed_date c)]"
    using s4(1) mk(3) u(3) by (simp add: s3_def s2_def log_def)
  moreover have "mkdtemp e \<in> tempdirs s4"
    using s4(2) mk(4) u(4) by (simp add: s3_def s2_def log_def)
  moreover have "violation_counter s4 = 0"
    using s4(3) mk(5) u(5) by (simp add: s3_def s2_def log_def)
  ultimately show ?thesis using res by simp
qed

theorem C9_missing_key_aborts_repository_witness:
  "fst (mine_repository env_no_code ex_url state0) = Some (KeyError ''code'')
   \<and> mkdtemp env_no_code \<in> tempdirs (snd (mine_repository env_no_code ex_url state0))
   \<and> violation_counter (snd (mine_repository env_no_code ex_url state0)) = 0
   \<and> logs (snd (mine_repository env_no_code ex_url state0))
       = [LogCloning ex_url, LogCommitsFound 1 ''main'', LogAnalysing ''abcdef1'' ''2024-01-02'']"
proof -
  have parts: "2 \<le> length (split_slash ex_url)" by (simp add: split_ex_url)
  have clone: "clone_from env_no_code ex_url (mkdtemp env_no_code) = Some ex_repo"
    by (simp add: env_no_code_def ex_env_def)
  have branch: "''main'' = (case active_branch ex_repo of Some b \<Rightarrow> b | None \<Rightarrow> ''main'')"
    by (simp add: ex_repo_def)
  have commits: "iter_commits ex_repo ''main'' = Some (ex_commit # [])" by (simp add: ex_repo_def)
  have base: "''dataset/r'' = path_join DATASET (remove_dot_git (last (split_slash ex_url)))"
    by (simp add: split_ex_url remove_dot_git_ex path_join_def DATASET_def)
  have ok: "\<not> makedirs_fails env_no_code ''dataset/r''" by (simp add: env_no_code_def ex_env_def)
  have free: "fs state0 ''dataset/r'' = None \<or> fs state0 ''dataset/r'' = Some Directory"
    by (simp add: state0_def)
  have checkout: "checkout_ok env_no_code (hexsha ex_commit)"
    by (simp add: env_no_code_def ex_env_def)
  have collected: "fst (collect_ruff_violations env_no_code
        (subprocess_run env_no_code (hexsha ex_commit)) (mkdtemp env_no_code) state0)
      = Inr (JArr (JObj [(''filename'', JStr ''x.py''), (''location'', JObj [(''row'', JNum 10)]),
                         (''message'', JStr ''line too long'')] # []))"
    by (simp add: collect_ruff_violations_def run_command_def env_no_code_def ex_env_def
        ex_entry_no_code_def strip_def is_space_def)
  have cdir: "''dataset/r/abcdef1'' = path_join ''dataset/r'' (take 7 (hexsha ex_commit))"
    by (simp add: path_join_def ex_commit_def)
  have cok: "\<not> makedirs_fails env_no_code ''dataset/r/abcdef1''"
    by (simp add: env_no_code_def ex_env_def)
  have cfree: "fs state0 ''dataset/r/abcdef1'' = None \<or> fs state0 ''dataset/r/abcdef1'' = Some Directory"
    by (simp add: state0_def)
  have src1: "map_of [(''filename'', JStr ''x.py''), (''location'', JObj [(''row'', JNum 10)]),
                      (''message'', JStr ''line too long'')] ''filename'' = Some (JStr ''x.py'')"
    by simp
  have src2: "''x.py'' \<noteq> []" by simp
  have src3: "worktree env_no_code (hexsha ex_commit) (path_join (mkdtemp env_no_code) ''x.py'')
      = Readable ''import os''"
    by (simp add: env_no_code_def ex_env_def path_join_def)
  have snap: "\<not> open_w_fails env_no_code (path_join ''dataset/r/abcdef1'' (basename ''x.py''))"
    by (simp add: env_no_code_def ex_env_def)
  have lacks: "map_of [(''filename'', JStr ''x.py''), (''location'', JObj [(''row'', JNum 10)]),
                      (''message'', JStr ''line too long'')] ''location'' = None
       \<or> (\<exists>loc. map_of [(''filename'', JStr ''x.py''), (''location'', JObj [(''row'', JNum 10)]),
                      (''message'', JStr ''line too long'')] ''location'' = Some (JObj loc)
             \<and> (map_of loc ''row'' = None
                 \<or> map_of [(''filename'', JStr ''x.py''), (''location'', JObj [(''row'', JNum 10)]),
                      (''message'', JStr ''line too long'')] ''code'' = None
                 \<or> map_of [(''filename'', JStr ''x.py''), (''location'', JObj [(''row'', JNum 10)]),
                      (''message'', JStr ''line too long'')] ''message'' = None))"
    by simp
  have which: "fst (mine_repository env_no_code ex_url state0) = Some (KeyError ''code'')"
    by (simp add: run_defs world_defs env_no_code_def split_ex_url remove_dot_git_ex)
  show ?thesis
    using C9_missing_key_aborts_repository [OF parts clone branch commits base ok free checkout
        collected cdir cok cfree src1 src2 src3 snap lacks] which
    by (simp add: state0_def ex_commit_def)
qed

section \<open>Record names\<close>

lemma json_destination_index:
  "json_destination e cd code k = json_destination e cd code' k' \<Longrightarrow> k = k'"
  unfolding json_destination_def by (rule record_path_index)

lemma json_destination_not_dir: "json_destination e cd code k \<noteq> cd"
proof -
  have "path_join cd (violation_filename x k) =
          (if cd = [] \<or> last cd = CHR ''/'' then cd else cd @ ''/'') @ violation_filename x k" for x
    by (rule path_join_relative [OF violation_filename_relative])
  moreover have "violation_filename x k \<noteq> []" for x by (simp add: violation_filename_def)
  ultimately show ?thesis by (auto simp: json_destination_def)
qed

lemma process_violation_no_new_dir:
  "fs s p \<noteq> Some Directory \<Longrightarrow> fs (snd (process_violation e cx c cd i v s)) p \<noteq> Some Directory"
  by (auto simp: pv_defs split: pv_splits)

lemma storable_step:
  assumes good: "storable e cx c cd code v"
    and ok: "\<not> open_w_fails e (json_destination e cd code (Suc i))"
      "fs s (json_destination e cd code (Suc i)) \<noteq> Some Directory"
  shows "\<exists>d. entry_record cx c v = Some d
          \<and> fst (process_violation e cx c cd i v s) = None
          \<and> violation_counter (snd (process_violation e cx c cd i v s)) = Suc (violation_counter s)
          \<and> fs (snd (process_violation e cx c cd i v s)) (json_destination e cd code (Suc i))
               = Some (RecordFile d)
          \<and> (\<forall>p. p \<noteq> json_destination e cd code (Suc i) \<longrightarrow>
                 fs (snd (process_violation e cx c cd i v s)) p = fs s p
                 \<or> (fs s p = None
                     \<and> (\<exists>t. fs (snd (process_violation e cx c cd i v s)) p = Some (Snapshot t))))"
  using assms
  by (auto simp: storable_def entry_record_def json_destination_def pv_defs
      split: sum.splits json.splits ws_file.splits if_splits)

lemma persist_loop_storable:
  assumes good: "\<forall>v\<in>set vs. storable e cx c cd code v"
    and ok: "\<forall>j<length vs. \<not> open_w_fails e (json_destination e cd code (Suc (i + j)))
               \<and> fs s (json_destination e cd code (Suc (i + j))) \<noteq> Some Directory"
  shows "fst (persist_loop e cx c cd i vs s) = None
       \<and> violation_counter (snd (persist_loop e cx c cd i vs s)) = violation_counter s + length vs
       \<and> (\<forall>j<length vs. \<exists>d. entry_record cx c (vs ! j) = Some d
               \<and> fs (snd (persist_loop e cx c cd i vs s)) (json_destination e cd code (Suc (i + j)))
                    = Some (RecordFile d))
       \<and> (\<forall>p. (\<forall>j<length vs. p \<noteq> json_destination e cd code (Suc (i + j))) \<longrightarrow>
               fs (snd (persist_loop e cx c cd i vs s)) p = fs s p
               \<or> (fs s p = None
                   \<and> (\<exists>t. fs (snd (persist_loop e cx c cd i vs s)) p = Some (Snapshot t))))"
  using assms
proof (induction vs arbitrary: i s)
  case Nil
  then show ?case by simp
next
  case (Cons v vs)
  let ?jd = "\<lambda>k. json_destination e cd code k"
  let ?pv = "process_violation e cx c cd i v s"
  have gv: "storable e cx c cd code v" using Cons.prems(1) by simp
  have ok0: "\<not> open_w_fails e (?jd (Suc i))" "fs s (?jd (Suc i)) \<noteq> Some Directory"
    using Cons.prems(2) by force+
  obtain d where d: "entry_record cx c v = Some d"
    and r: "fst ?pv = None"
    and cnt: "violation_counter (snd ?pv) = Suc (violation_counter s)"
    and rec: "fs (snd ?pv) (?jd (Suc i)) = Some (RecordFile d)"
    and frame: "\<And>p. p \<noteq> ?jd (Suc i) \<Longrightarrow>
                 fs (snd ?pv) p = fs s p
                 \<or> (fs s p = None \<and> (\<exists>t. fs (snd ?pv) p = Some (Snapshot t)))"
    using storable_step [OF gv ok0] by blast
  define s1 where "s1 = snd ?pv"
  have pv: "?pv = (None, s1)" using r by (cases ?pv) (simp add: s1_def)
  let ?rest = "persist_loop e cx c cd (Suc i) vs s1"
  have loop: "persist_loop e cx c cd i (v # vs) s = ?rest" using pv by simp
  have good': "\<forall>v\<in>set vs. storable e cx c cd code v" using Cons.prems(1) by simp
  have ok': "\<forall>j<length vs. \<not> open_w_fails e (?jd (Suc (Suc i + j)))
               \<and> fs s1 (?jd (Suc (Suc i + j))) \<noteq> Some Directory"
  proof (intro allI impI)
    fix j assume j: "j < length vs"
    then have "Suc j < length (v # vs)" by simp
    with Cons.prems(2) have a: "\<not> open_w_fails e (?jd (Suc (i + Suc j)))"
      and b: "fs s (?jd (Suc (i + Suc j))) \<noteq> Some Directory" by blast+
    have "fs s1 (?jd (Suc (i + Suc j))) \<noteq> Some Directory"
      unfolding s1_def using b by (rule process_violation_no_new_dir)
    with a show "\<not> open_w_fails e (?jd (Suc (Suc i + j)))
               \<and> fs s1 (?jd (Suc (Suc i + j))) \<noteq> Some Directory" by simp
  qed
  note IH = Cons.IH [OF good' ok']
  have ih1: "fst ?rest = None"
    and ih2: "violation_counter (snd ?rest) = violation_counter s1 + length vs"
    and ih3: "\<And>j. j < length vs \<Longrightarrow> \<exists>d. entry_record cx c (vs ! j) = Some d
               \<and> fs (snd ?rest) (?jd (Suc (Suc i + j))) = Some (RecordFile d)"
    and ih4: "\<And>p. (\<forall>j<length vs. p \<noteq> ?jd (Suc (Suc i + j))) \<Longrightarrow>
               fs (snd ?rest) p = fs s1 p
               \<or> (fs s1 p = None \<and> (\<exists>t. fs (snd ?rest) p = Some (Snapshot t)))"
    using IH by blast+
  have c1: "fst (persist_loop e cx c cd i (v # vs) s) = None" using loop ih1 by simp
  have c2: "violation_counter (snd (persist_loop e cx c cd i (v # vs) s))
              = violation_counter s + length (v # vs)"
    using loop ih2 cnt by (simp add: s1_def)
  have first: "fs (snd ?rest) (?jd (Suc i)) = Some (RecordFile d)"
  proof -
    have "\<forall>j<length vs. ?jd (Suc i) \<noteq> ?jd (Suc (Suc i + j))"
      using json_destination_index [of e cd code "Suc i" code] by fastforce
    from ih4 [OF this] rec show ?thesis by (simp add: s1_def)
  qed
  have c3: "\<forall>j<length (v # vs). \<exists>d. entry_record cx c ((v # vs) ! j) = Some d
               \<and> fs (snd (persist_loop e cx c cd i (v # vs) s)) (?jd (Suc (i + j)))
                    = Some (RecordFile d)"
  proof (intro allI impI)
    fix j assume j: "j < length (v # vs)"
    show "\<exists>d. entry_record cx c ((v # vs) ! j) = Some d
               \<and> fs (snd (persist_loop e cx c cd i (v # vs) s)) (?jd (Suc (i + j)))
                    = Some (RecordFile d)"
    proof (cases j)
      case 0
      then show ?thesis using d first loop by simp
    next
      case (Suc j')
      then have "j' < length vs" using j by simp
      from ih3 [OF this] show ?thesis using Suc loop by simp
    qed
  qed
  have c4: "\<forall>p. (\<forall>j<length (v # vs). p \<noteq> ?jd (Suc (i + j))) \<longrightarrow>
               fs (snd (persist_loop e cx c cd i (v # vs) s)) p = fs s p
               \<or> (fs s p = None
                   \<and> (\<exists>t. fs (snd (persist_loop e cx c cd i (v # vs) s)) p = Some (Snapshot t)))"
  proof (intro allI impI)
    fix p assume p: "\<forall>j<length (v # vs). p \<noteq> ?jd (Suc (i + j))"
    then have p0: "p \<noteq> ?jd (Suc i)" by force
    have prest: "\<forall>j<length vs. p \<noteq> ?jd (Suc (Suc i + j))"
    proof (intro allI impI)
      fix j assume "j < length vs"
      then have "Suc j < length (v # vs)" by simp
      with p have "p \<noteq> ?jd (Suc (i + Suc j))" by blast
      then show "p \<noteq> ?jd (Suc (Suc i + j))" by simp
    qed
    from frame [OF p0] ih4 [OF prest]
    show "fs (snd (persist_loop e cx c cd i (v # vs) s)) p = fs s p
               \<or> (fs s p = None
                   \<and> (\<exists>t. fs (snd (persist_loop e cx c cd i (v # vs) s)) p = Some (Snapshot t)))"
      unfolding loop s1_def by auto
  qed
  show ?case using c1 c2 c3 c4 by blast
qed

text \<open>
  Claim C4: the persist step of a commit receives \<open>N\<close> violations, all with the same
  linter code and all storable, and no directory creation or record write is refused.
  Then the step raises nothing and counts \<open>N\<close> records; for every \<open>k\<close> from 1 to
  \<open>N\<close> the file \<^verbatim>\<open>violation_<code>_<k>.json\<close> of the commit directory holds
  the record of the \<open>k\<close>-th violation in the collector's order; every record found in
  the dataset afterwards is one of these \<open>N\<close> or was there before, unchanged; and a
  record path determines its index, whatever the codes: two violations of one commit never
  share a record file. The index starts at 1 in every call: it does not depend on the
  state the call starts in.
\<close>

theorem C4_unique_record_naming:
  assumes cdir: "commit_dir = path_join (cx_repo_base_dir cx) (take 7 (hexsha c))"
    and mk: "\<not> makedirs_fails e commit_dir"
      "fs s commit_dir = None \<or> fs s commit_dir = Some Directory"
    and good: "\<forall>v\<in>set vs. storable e cx c commit_dir code v"
    and recs: "\<forall>k. 1 \<le> k \<and> k \<le> length vs \<longrightarrow>
                 \<not> open_w_fails e (json_destination e commit_dir code k)
                 \<and> fs s (json_destination e commit_dir code k) \<noteq> Some Directory"
  shows "fst (persist e cx c (JArr vs) s) = None
     \<and> violation_counter (snd (persist e cx c (JArr vs) s)) = violation_counter s + length vs
     \<and> (\<forall>k. 1 \<le> k \<and> k \<le> length vs \<longrightarrow>
           (\<exists>d. entry_record cx c (vs ! (k - 1)) = Some d
              \<and> fs (snd (persist e cx c (JArr vs) s)) (json_destination e commit_dir code k)
                   = Some (RecordFile d)))
     \<and> (\<forall>p d. fs (snd (persist e cx c (JArr vs) s)) p = Some (RecordFile d) \<longrightarrow>
           (\<exists>k. 1 \<le> k \<and> k \<le> length vs \<and> p = json_destination e commit_dir code k)
           \<or> fs s p = Some (RecordFile d))
     \<and> (\<forall>k k' code'. json_destination e commit_dir code k = json_destination e commit_dir code' k'
           \<longrightarrow> k = k')"
proof -
  let ?jd = "\<lambda>k. json_destination e commit_dir code k"
  have inj: "\<forall>k k' code'. ?jd k = json_destination e commit_dir code' k' \<longrightarrow> k = k'"
    using json_destination_index by blast
  show ?thesis
  proof (cases "vs = []")
    case True
    then show ?thesis using inj by (simp add: persist_def)
  next
    case False
    define s1 where "s1 = snd (makedirs e commit_dir s)"
    note m = makedirs_ok [OF mk]
    have mk1: "makedirs e commit_dir s = (None, s1)"
      using m(1) by (cases "makedirs e commit_dir s") (simp add: s1_def)
    have fs1: "fs s1 = (fs s)(commit_dir \<mapsto> Directory)" using m(2) by (simp add: s1_def)
    have cnt1: "violation_counter s1 = violation_counter s" using m(5) by (simp add: s1_def)
    let ?loop = "persist_loop e cx c commit_dir 0 vs s1"
    have pers: "persist e cx c (JArr vs) s = ?loop"
      using False mk1 by (simp add: persist_def cdir [symmetric])
    have ok: "\<forall>j<length vs. \<not> open_w_fails e (?jd (Suc (0 + j)))
               \<and> fs s1 (?jd (Suc (0 + j))) \<noteq> Some Directory"
    proof (intro allI impI)
      fix j assume "j < length vs"
      then have "1 \<le> Suc j \<and> Suc j \<le> length vs" by simp
      with recs have "\<not> open_w_fails e (?jd (Suc j))" "fs s (?jd (Suc j)) \<noteq> Some Directory"
        by blast+
      then show "\<not> open_w_fails e (?jd (Suc (0 + j))) \<and> fs s1 (?jd (Suc (0 + j))) \<noteq> Some Directory"
        using json_destination_not_dir [of e commit_dir code "Suc j"] by (simp add: fs1)
    qed
    note L = persist_loop_storable [OF good ok]
    have l1: "fst ?loop = None"
      and l2: "violation_counter (snd ?loop) = violation_counter s1 + length vs"
      and l3: "\<And>j. j < length vs \<Longrightarrow> \<exists>d. entry_record cx c (vs ! j) = Some d
               \<and> fs (snd ?loop) (?jd (Suc (0 + j))) = Some (RecordFile d)"
      and l4: "\<And>p. (\<forall>j<length vs. p \<noteq> ?jd (Suc (0 + j))) \<Longrightarrow>
               fs (snd ?loop) p = fs s1 p
               \<or> (fs s1 p = None \<and> (\<exists>t. fs (snd ?loop) p = Some (Snapshot t)))"
      using L by blast+
    have c3: "\<forall>k. 1 \<le> k \<and> k \<le> length vs \<longrightarrow>
           (\<exists>d. entry_record cx c (vs ! (k - 1)) = Some d
              \<and> fs (snd ?loop) (?jd k) = Some (RecordFile d))"
    proof (intro allI impI)
      fix k assume k: "1 \<le> k \<and> k \<le> length vs"
      then have "k - 1 < length vs" and "Suc (0 + (k - 1)) = k" by arith+
      with l3 [of "k - 1"] show "\<exists>d. entry_record cx c (vs ! (k - 1)) = Some d
              \<and> fs (snd ?loop) (?jd k) = Some (RecordFile d)" by simp
    qed
    have c4: "\<forall>p d. fs (snd ?loop) p = Some (RecordFile d) \<longrightarrow>
           (\<exists>k. 1 \<le> k \<and> k \<le> length vs \<and> p = ?jd k) \<or> fs s p = Some (RecordFile d)"
    proof (intro allI impI)
      fix p d assume rec: "fs (snd ?loop) p = Some (RecordFile d)"
      show "(\<exists>k. 1 \<le> k \<and> k \<le> length vs \<and> p = ?jd k) \<or> fs s p = Some (RecordFile d)"
      proof (cases "\<exists>j<length vs. p = ?jd (Suc (0 + j))")
        case True
        then obtain j where "j < length vs" "p = ?jd (Suc j)" by auto
        then have "1 \<le> Suc j \<and> Suc j \<le> length vs \<and> p = ?jd (Suc j)" by simp
        then show ?thesis by blast
      next
        case False
        then have "\<forall>j<length vs. p \<noteq> ?jd (Suc (0 + j))" by blast
        from l4 [OF this] rec have "fs s1 p = Some (RecordFile d)" by auto
        then have "fs s p = Some (RecordFile d)"
          by (cases "p = commit_dir") (simp_all add: fs1)
        then show ?thesis by blast
      qed
    qed
    show ?thesis using pers l1 l2 cnt1 c3 c4 inj by simp
  qed
qed

theorem C4_unique_record_naming_witness:
  "fst (persist ex_env ex_cx ex_commit (JArr [ex_entry, ex_entry_y]) state0) = None
   \<and> violation_counter (snd (persist ex_env ex_cx ex_commit (JArr [ex_entry, ex_entry_y]) state0)) = 2
   \<and> fs (snd (persist ex_env ex_cx ex_commit (JArr [ex_entry, ex_entry_y]) state0))
       ''dataset/r/abcdef1/violation_E501_1.json'' = Some (RecordFile ex_record)
   \<and> fs (snd (persist ex_env ex_cx ex_commit (JArr [ex_entry, ex_entry_y]) state0))
       ''dataset/r/abcdef1/violation_E501_2.json'' = Some (RecordFile ex_record_y)"
proof -
  let ?cd = "''dataset/r/abcdef1''"
  let ?P = "persist ex_env ex_cx ex_commit (JArr [ex_entry, ex_entry_y]) state0"
  have cdir: "?cd = path_join (cx_repo_base_dir ex_cx) (take 7 (hexsha ex_commit))"
    by (simp add: ex_cx_def ex_commit_def path_join_def)
  have mk: "\<not> makedirs_fails ex_env ?cd" "fs state0 ?cd = None \<or> fs state0 ?cd = Some Directory"
    by (simp_all add: ex_env_def state0_def)
  have good: "\<forall>v\<in>set [ex_entry, ex_entry_y]. storable ex_env ex_cx ex_commit ?cd (JStr ''E501'') v"
    by (simp add: storable_def build_violation_data_def path_join_def basename_def world_defs)
  have recs: "\<forall>k. 1 \<le> k \<and> k \<le> length [ex_entry, ex_entry_y] \<longrightarrow>
                 \<not> open_w_fails ex_env (json_destination ex_env ?cd (JStr ''E501'') k)
                 \<and> fs state0 (json_destination ex_env ?cd (JStr ''E501'') k) \<noteq> Some Directory"
    by (simp add: ex_env_def state0_def)
  have jd1: "json_destination ex_env ?cd (JStr ''E501'') 1 = ''dataset/r/abcdef1/violation_E501_1.json''"
    by (simp add: json_destination_def violation_filename_def path_join_def str_nat_1)
  have jd2: "json_destination ex_env ?cd (JStr ''E501'') 2 = ''dataset/r/abcdef1/violation_E501_2.json''"
    using str_nat_2
    by (simp add: json_destination_def violation_filename_def path_join_def numeral_2_eq_2)
  have r1: "entry_record ex_cx ex_commit ([ex_entry, ex_entry_y] ! (1 - 1)) = Some ex_record"
    by (simp add: entry_record_def build_violation_data_def basename_def world_defs)
  have r2: "entry_record ex_cx ex_commit ([ex_entry, ex_entry_y] ! (2 - 1)) = Some ex_record_y"
    by (simp add: entry_record_def build_violation_data_def basename_def world_defs ex_record_y_def)
  note th = C4_unique_record_naming [OF cdir mk good recs]
  have a: "fst ?P = None" and b: "violation_counter (snd ?P) = violation_counter state0 + 2"
    using th by simp_all
  have all: "\<And>k. 1 \<le> k \<and> k \<le> length [ex_entry, ex_entry_y] \<Longrightarrow>
           (\<exists>d. entry_record ex_cx ex_commit ([ex_entry, ex_entry_y] ! (k - 1)) = Some d
              \<and> fs (snd ?P) (json_destination ex_env ?cd (JStr ''E501'') k) = Some (RecordFile d))"
    using th by blast
  have c: "fs (snd ?P) ''dataset/r/abcdef1/violation_E501_1.json'' = Some (RecordFile ex_record)"
    using all [of 1] r1 jd1 by simp
  have d: "fs (snd ?P) ''dataset/r/abcdef1/violation_E501_2.json'' = Some (RecordFile ex_record_y)"
    using all [of 2] r2 jd2 by simp
  show ?thesis using a b c d by (simp add: state0_def)
qed

end
